theory Spec2Isabelle
  imports Main "HOL-Library.AList" "HOL-Library.Monad_Syntax"
begin

section \<open>League tables (fantasy_scheduler_ortools.py, module level)\<close>

text \<open>
  A Python dict is an association list with distinct keys in insertion order; a lookup
  \<open>d[k]\<close> is \<open>map_of d k\<close>, and \<open>None\<close> stands for the \<open>KeyError\<close> the lookup raises.
  Storing under a key that is already present keeps its position and replaces the value.
\<close>

definition dict_of :: "('k \<times> 'v) list \<Rightarrow> ('k \<times> 'v) list" where
  "dict_of ps = foldl (\<lambda>d (k, v). AList.update k v d) [] ps"

text \<open>
  The two tables the module hard-codes are the fields of a record, so that the
  module can be read at any tables.
\<close>

record league =
  teams_by_div :: "(string \<times> string list) list"
  rivals :: "(string \<times> string) list"

definition module_league :: league where
  "module_league = \<lparr>
     teams_by_div =
       [(''North'', [''Thor'', ''Blake'', ''Abe'', ''DTM'']),
        (''South'', [''Samran'', ''Nasties'', ''Thomas'', ''Shooter'']),
        (''East'', [''Emelie'', ''AMO'', ''Lukose'', ''Sydney'']),
        (''West'', [''Nick'', ''Rej'', ''Saagar'', ''Dino''])],
     rivals =
       [(''DTM'', ''Sydney''), (''Thomas'', ''Emelie''), (''Thor'', ''Nick''),
        (''Blake'', ''Rej''), (''Samran'', ''Dino''), (''Abe'', ''Lukose''),
        (''Nasties'', ''Saagar''), (''Shooter'', ''AMO'')] \<rparr>"

definition div_of :: "league \<Rightarrow> (string \<times> string) list" where
  "div_of L = dict_of [(t, d). (d, ts) \<leftarrow> teams_by_div L, t \<leftarrow> ts]"

definition opposite :: "(string \<times> string) list" where
  "opposite = [(''North'', ''South''), (''South'', ''North''),
               (''East'', ''West''), (''West'', ''East'')]"

definition teams :: "league \<Rightarrow> string list" where
  "teams L = [t. ts \<leftarrow> map snd (teams_by_div L), t \<leftarrow> ts]"

definition T :: "league \<Rightarrow> nat" where
  "T L = length (teams L)"

definition W :: nat where
  "W = 14"

definition G :: nat where
  "G = 8"

definition idx :: "league \<Rightarrow> (string \<times> nat) list" where
  "idx L = dict_of [(t, i). (i, t) \<leftarrow> enumerate 0 (teams L)]"

definition idx_to_team :: "league \<Rightarrow> (nat \<times> string) list" where
  "idx_to_team L = dict_of [(i, t). (t, i) \<leftarrow> idx L]"

section \<open>The constraint model\<close>

text \<open>
  A decision variable \<open>matches[i][j][w]\<close> is the triple \<open>(i, j, w)\<close>: team \<open>i\<close> hosts team
  \<open>j\<close> in week \<open>w\<close>. The nested dict holds one for every \<open>i, j < T\<close> with \<open>i \<noteq> j\<close> and
  every \<open>w < W\<close>; reading any other entry raises.
\<close>

type_synonym var = "nat \<times> nat \<times> nat"

definition matches :: "league \<Rightarrow> nat \<Rightarrow> nat \<Rightarrow> nat \<Rightarrow> var option" where
  "matches L i j w = (if i < T L \<and> j < T L \<and> i \<noteq> j \<and> w < W then Some (i, j, w) else None)"

text \<open>
  The test \<open>j in matches[i] and w in matches[i][j]\<close>: it raises when \<open>matches[i]\<close> is
  missing, and the second conjunct is only read when the first holds.
\<close>

definition has_match :: "league \<Rightarrow> nat \<Rightarrow> nat \<Rightarrow> nat \<Rightarrow> bool option" where
  "has_match L i j w = (if i < T L then Some (j < T L \<and> j \<noteq> i \<and> w < W) else None)"

text \<open>
  \<open>if j in matches[i] and w in matches[i][j]: xs.append(matches[i][j][w])\<close>, as the
  list of what is appended.
\<close>

definition guarded_match :: "league \<Rightarrow> nat \<Rightarrow> nat \<Rightarrow> nat \<Rightarrow> var list option" where
  "guarded_match L i j w = do {
     b \<leftarrow> has_match L i j w;
     if b then map_option (\<lambda>v. [v]) (matches L i j w) else Some []
   }"

text \<open>
  \<open>model.Add(sum(vs) == k)\<close>, \<open>model.Add(sum(vs) <= k)\<close> and \<open>model.Add(sum(vs) >= k)\<close>.
  The variable list keeps its order and its repetitions.
\<close>

datatype constraint = SumEq "var list" nat | SumLe "var list" nat | SumGe "var list" nat

text \<open>Constraint 1: each team plays exactly once per week.\<close>

definition constraint1 :: "league \<Rightarrow> constraint list option" where
  "constraint1 L = those [do {
       home_games \<leftarrow> those [matches L i j w. j \<leftarrow> [0..<T L], j \<noteq> i];
       away_games \<leftarrow> those [matches L j i w. j \<leftarrow> [0..<T L], j \<noteq> i];
       Some (SumEq (home_games @ away_games) 1)
     }. w \<leftarrow> [0..<W], i \<leftarrow> [0..<T L]]"

text \<open>Constraint 2: each week has exactly G games.\<close>

definition constraint2 :: "league \<Rightarrow> constraint list option" where
  "constraint2 L = those [do {
       total_games \<leftarrow> those [matches L i j w. i \<leftarrow> [0..<T L], j \<leftarrow> [0..<T L], i \<noteq> j];
       Some (SumEq total_games G)
     }. w \<leftarrow> [0..<W]]"

text \<open>
  The loop header shared by constraints 3, 5b and 7: the index pairs
  \<open>(div_indices[i], div_indices[j])\<close> with \<open>i < j\<close> of every division, in order.
\<close>

definition div_pairs :: "league \<Rightarrow> (nat \<times> nat) list option" where
  "div_pairs L = map_option concat (those [do {
       div_indices \<leftarrow> those [map_of (idx L) team. team \<leftarrow> div_teams];
       Some [(div_indices ! i, div_indices ! j).
               i \<leftarrow> [0..<length div_indices], j \<leftarrow> [i + 1..<length div_indices]]
     }. div_teams \<leftarrow> map snd (teams_by_div L)])"

text \<open>Constraint 3: division double round-robin.\<close>

definition constraint3 :: "league \<Rightarrow> constraint list option" where
  "constraint3 L = do {
     pairs \<leftarrow> div_pairs L;
     those [do {
         total_games \<leftarrow> those (concat [[matches L team_i team_j w, matches L team_j team_i w].
                                         w \<leftarrow> [0..<W]]);
         Some (SumEq total_games 2)
       }. (team_i, team_j) \<leftarrow> pairs]
   }"

text \<open>
  The loop header shared by constraints 4 and 4b: the index lists of the two
  divisions of each designated pairing.
\<close>

definition opposite_indices :: "league \<Rightarrow> (nat list \<times> nat list) list option" where
  "opposite_indices L = those [do {
       div1_teams \<leftarrow> map_of (teams_by_div L) div1;
       div1_indices \<leftarrow> those [map_of (idx L) team. team \<leftarrow> div1_teams];
       div2_teams \<leftarrow> map_of (teams_by_div L) div2;
       div2_indices \<leftarrow> those [map_of (idx L) team. team \<leftarrow> div2_teams];
       Some (div1_indices, div2_indices)
     }. (div1, div2) \<leftarrow> [(''North'', ''South''), (''East'', ''West'')]]"

text \<open>Constraint 4: opposite division single round.\<close>

definition constraint4 :: "league \<Rightarrow> constraint list option" where
  "constraint4 L = do {
     divs \<leftarrow> opposite_indices L;
     those [do {
         total_games \<leftarrow> those (concat [[matches L team_i team_j w, matches L team_j team_i w].
                                         w \<leftarrow> [0..<W]]);
         Some (SumEq total_games 1)
       }. (div1_indices, div2_indices) \<leftarrow> divs, team_i \<leftarrow> div1_indices, team_j \<leftarrow> div2_indices]
   }"

text \<open>Constraint 4b: every team hosts two of its four opposite-division games.\<close>

definition constraint4b :: "league \<Rightarrow> constraint list option" where
  "constraint4b L = do {
     divs \<leftarrow> opposite_indices L;
     those (concat [
       [do {
          home_games_vs_div2 \<leftarrow> those [matches L team_i team_j w.
                                         team_j \<leftarrow> div2_indices, w \<leftarrow> [0..<W]];
          Some (SumEq home_games_vs_div2 2)
        }. team_i \<leftarrow> div1_indices] @
       [do {
          home_games_vs_div1 \<leftarrow> those [matches L team_j team_i w.
                                         team_i \<leftarrow> div1_indices, w \<leftarrow> [0..<W]];
          Some (SumEq home_games_vs_div1 2)
        }. team_j \<leftarrow> div2_indices].
       (div1_indices, div2_indices) \<leftarrow> divs])
   }"

text \<open>Constraint 5: seven home and seven away games per team.\<close>

definition constraint5 :: "league \<Rightarrow> constraint list option" where
  "constraint5 L = those (concat [
       [do {
          home_games \<leftarrow> those [matches L i j w. w \<leftarrow> [0..<W], j \<leftarrow> [0..<T L], i \<noteq> j];
          Some (SumEq home_games 7)
        },
        do {
          away_games \<leftarrow> those [matches L j i w. w \<leftarrow> [0..<W], j \<leftarrow> [0..<T L], i \<noteq> j];
          Some (SumEq away_games 7)
        }]. i \<leftarrow> [0..<T L]])"

text \<open>Constraint 5b: each divisional pair plays exactly once at each location.\<close>

definition constraint5b :: "league \<Rightarrow> constraint list option" where
  "constraint5b L = do {
     pairs \<leftarrow> div_pairs L;
     those (concat [
       [do {
          home_games_i_vs_j \<leftarrow> those [matches L team_i team_j w. w \<leftarrow> [0..<W]];
          Some (SumEq home_games_i_vs_j 1)
        },
        do {
          home_games_j_vs_i \<leftarrow> those [matches L team_j team_i w. w \<leftarrow> [0..<W]];
          Some (SumEq home_games_j_vs_i 1)
        }]. (team_i, team_j) \<leftarrow> pairs])
   }"

text \<open>Constraint 6: rivalry week (week 10, index 9).\<close>

definition rivalry_week :: nat where
  "rivalry_week = 9"

definition constraint6 :: "league \<Rightarrow> constraint list option" where
  "constraint6 L = those [do {
       team1_idx \<leftarrow> map_of (idx L) team1;
       team2_idx \<leftarrow> map_of (idx L) team2;
       a \<leftarrow> matches L team1_idx team2_idx rivalry_week;
       b \<leftarrow> matches L team2_idx team1_idx rivalry_week;
       Some (SumEq [a, b] 1)
     }. (team1, team2) \<leftarrow> rivals L]"

text \<open>Constraint 7: minimum separation between the two games of a divisional pair.\<close>

definition separation_weeks :: nat where
  "separation_weeks = 3"

definition constraint7 :: "league \<Rightarrow> constraint list option" where
  "constraint7 L = do {
     pairs \<leftarrow> div_pairs L;
     those [do {
         a \<leftarrow> matches L team_i team_j w1;
         b \<leftarrow> matches L team_j team_i w1;
         c \<leftarrow> matches L team_i team_j w2;
         d \<leftarrow> matches L team_j team_i w2;
         Some (SumLe [a, b, c, d] 1)
       }. (team_i, team_j) \<leftarrow> pairs, w1 \<leftarrow> [0..<W],
          w2 \<leftarrow> [w1 + 1..<min (w1 + separation_weeks) W]]
   }"

text \<open>
  \<open>[idx[teammate] for teammate in teams_by_div[div_of[idx_to_team[i]]]
     if teammate != idx_to_team[i]]\<close>, the header of constraints 8 and 9.
\<close>

definition team_div_indices :: "league \<Rightarrow> nat \<Rightarrow> nat list option" where
  "team_div_indices L i = do {
     name \<leftarrow> map_of (idx_to_team L) i;
     d \<leftarrow> map_of (div_of L) name;
     mates \<leftarrow> map_of (teams_by_div L) d;
     those [map_of (idx L) teammate. teammate \<leftarrow> mates, teammate \<noteq> name]
   }"

text \<open>
  The variables of team \<open>i\<close>'s division games in the given weeks, as constraints 8
  and 9 collect them: for each week and each division opponent, the home variable and
  then the away variable.
\<close>

definition division_games :: "league \<Rightarrow> nat \<Rightarrow> nat list \<Rightarrow> nat list \<Rightarrow> var list option" where
  "division_games L i opponents ws = map_option concat (those [do {
       home \<leftarrow> guarded_match L i div_opponent w;
       away \<leftarrow> guarded_match L div_opponent i w;
       Some (home @ away)
     }. w \<leftarrow> ws, div_opponent \<leftarrow> opponents])"

text \<open>Constraint 8: at most 2 division games in any 3 consecutive weeks.\<close>

definition constraint8 :: "league \<Rightarrow> constraint list option" where
  "constraint8 L = map_option concat (those [do {
       opponents \<leftarrow> team_div_indices L i;
       division_games_in_3_weeks \<leftarrow> division_games L i opponents [w1, w1 + 1, w1 + 2];
       Some (if division_games_in_3_weeks \<noteq> [] then [SumLe division_games_in_3_weeks 2]
             else [])
     }. i \<leftarrow> [0..<T L], w1 \<leftarrow> [0..<W - 2]])"

text \<open>Constraint 9: at least 3 division games in the last 8 weeks.\<close>

definition last_8_weeks :: "nat list" where
  "last_8_weeks = [6..<14]"

definition constraint9 :: "league \<Rightarrow> constraint list option" where
  "constraint9 L = map_option concat (those [do {
       opponents \<leftarrow> team_div_indices L i;
       division_games_last_8 \<leftarrow> division_games L i opponents last_8_weeks;
       Some (if division_games_last_8 \<noteq> [] then [SumGe division_games_last_8 3] else [])
     }. i \<leftarrow> [0..<T L]])"

text \<open>
  \<open>[j for j in range(T) if j != i and div_of[idx_to_team[j]] != team_div]\<close>, the header
  of constraints 10 and 11.
\<close>

definition non_division_teams :: "league \<Rightarrow> nat \<Rightarrow> nat list option" where
  "non_division_teams L i = do {
     team_name \<leftarrow> map_of (idx_to_team L) i;
     team_div \<leftarrow> map_of (div_of L) team_name;
     map_option concat (those [
       if j \<noteq> i then do {
         other \<leftarrow> map_of (idx_to_team L) j;
         other_div \<leftarrow> map_of (div_of L) other;
         Some (if other_div \<noteq> team_div then [j] else [])
       } else Some []. j \<leftarrow> [0..<T L]])
   }"

text \<open>Constraint 10: no team plays any non-division opponent more than once.\<close>

definition constraint10 :: "league \<Rightarrow> constraint list option" where
  "constraint10 L = map_option concat (those [do {
       non_division \<leftarrow> non_division_teams L i;
       map_option concat (those [do {
           total_games \<leftarrow> map_option concat (those [do {
               home \<leftarrow> guarded_match L i j w;
               away \<leftarrow> guarded_match L j i w;
               Some (home @ away)
             }. w \<leftarrow> [0..<W]]);
           Some (if total_games \<noteq> [] then [SumLe total_games 1] else [])
         }. j \<leftarrow> non_division])
     }. i \<leftarrow> [0..<T L]])"

text \<open>Constraint 11: all games in the final week are divisional.\<close>

definition final_week :: nat where
  "final_week = W - 1"

definition constraint11 :: "league \<Rightarrow> constraint list option" where
  "constraint11 L = map_option concat (those [do {
       non_division \<leftarrow> non_division_teams L i;
       map_option concat (those [do {
           home \<leftarrow> guarded_match L i j final_week;
           away \<leftarrow> guarded_match L j i final_week;
           Some ([SumEq [v] 0. v \<leftarrow> home] @ [SumEq [v] 0. v \<leftarrow> away])
         }. j \<leftarrow> non_division])
     }. i \<leftarrow> [0..<T L]])"

text \<open>Constraint 12: no more than 3 home games, or 3 away games, in 4 consecutive weeks.\<close>

definition constraint12 :: "league \<Rightarrow> constraint list option" where
  "constraint12 L = those (concat [
       [do {
          home_games_in_4_weeks \<leftarrow> those [matches L i j w.
              w \<leftarrow> [w1, w1 + 1, w1 + 2, w1 + 3], j \<leftarrow> [0..<T L], i \<noteq> j];
          Some (SumLe home_games_in_4_weeks 3)
        }. w1 \<leftarrow> [0..<W - 3]] @
       [do {
          away_games_in_4_weeks \<leftarrow> those [matches L j i w.
              w \<leftarrow> [w1, w1 + 1, w1 + 2, w1 + 3], j \<leftarrow> [0..<T L], i \<noteq> j];
          Some (SumLe away_games_in_4_weeks 3)
        }. w1 \<leftarrow> [0..<W - 3]].
       i \<leftarrow> [0..<T L]])"

text \<open>The model handed to the solver: every constraint added, in the order of the module.\<close>

definition build_model :: "league \<Rightarrow> constraint list option" where
  "build_model L = do {
     c1 \<leftarrow> constraint1 L;
     c2 \<leftarrow> constraint2 L;
     c3 \<leftarrow> constraint3 L;
     c4 \<leftarrow> constraint4 L;
     c4b \<leftarrow> constraint4b L;
     c5 \<leftarrow> constraint5 L;
     c5b \<leftarrow> constraint5b L;
     c6 \<leftarrow> constraint6 L;
     c7 \<leftarrow> constraint7 L;
     c8 \<leftarrow> constraint8 L;
     c9 \<leftarrow> constraint9 L;
     c10 \<leftarrow> constraint10 L;
     c11 \<leftarrow> constraint11 L;
     c12 \<leftarrow> constraint12 L;
     Some (c1 @ c2 @ c3 @ c4 @ c4b @ c5 @ c5b @ c6 @ c7 @ c8 @ c9 @ c10 @ c11 @ c12)
   }"

section \<open>Assignments\<close>

text \<open>
  What \<open>solver.Value\<close> returns for each Boolean variable is an assignment; the sum of a
  list of variables counts the true ones, with repetition.
\<close>

type_synonym assignment = "var \<Rightarrow> bool"

definition lin_sum :: "assignment \<Rightarrow> var list \<Rightarrow> nat" where
  "lin_sum \<sigma> vs = (\<Sum>v\<leftarrow>vs. if \<sigma> v then 1 else 0)"

fun holds :: "assignment \<Rightarrow> constraint \<Rightarrow> bool" where
  "holds \<sigma> (SumEq vs k) = (lin_sum \<sigma> vs = k)"
| "holds \<sigma> (SumLe vs k) = (lin_sum \<sigma> vs \<le> k)"
| "holds \<sigma> (SumGe vs k) = (lin_sum \<sigma> vs \<ge> k)"

text \<open>
  A satisfying assignment of the model of league \<open>L\<close>: the model was built and every
  constraint in it holds.
\<close>

definition satisfying :: "league \<Rightarrow> assignment \<Rightarrow> bool" where
  "satisfying L \<sigma> = (case build_model L of None \<Rightarrow> False | Some cs \<Rightarrow> list_all (holds \<sigma>) cs)"

section \<open>Extracting the schedule\<close>

text \<open>
  The two dicts the extraction loop builds per game: \<open>game_info\<close> with the keys
  \<open>Week\<close>, \<open>Away\<close>, \<open>Home\<close>, \<open>Type\<close>, and the entry of a team's schedule with the
  keys \<open>Week\<close>, \<open>Opponent\<close>, \<open>Venue\<close>, \<open>Type\<close> (here \<open>t_Week\<close> and \<open>t_Type\<close>).
\<close>

record game_info =
  Week :: nat
  Away :: string
  Home :: string
  Type :: string

record team_game =
  t_Week :: nat
  Opponent :: string
  Venue :: string
  t_Type :: string

text \<open>The \<open>if\<close>/\<open>elif\<close> chain that determines the game type.\<close>

definition game_type :: "league \<Rightarrow> nat \<Rightarrow> string \<Rightarrow> string \<Rightarrow> string option" where
  "game_type L w home_team away_team = do {
     home_div \<leftarrow> map_of (div_of L) home_team;
     away_div \<leftarrow> map_of (div_of L) away_team;
     if home_div = away_div then Some ''Division''
     else do {
       opp \<leftarrow> map_of opposite home_div;
       if away_div = opp then Some ''Opposite''
       else if w = 9 \<and> list_ex (\<lambda>rival. (home_team, away_team) = rival \<or>
                                         (away_team, home_team) = rival) (rivals L)
       then Some ''Rivalry''
       else Some ''Cross-Division''
     }
   }"

text \<open>\<open>team_schedules[team].append(g)\<close>.\<close>

definition append_game ::
  "(string \<times> team_game list) list \<Rightarrow> string \<Rightarrow> team_game \<Rightarrow> (string \<times> team_game list) list option"
where
  "append_game team_schedules team g = do {
     old \<leftarrow> map_of team_schedules team;
     Some (AList.update team (old @ [g]) team_schedules)
   }"

type_synonym schedule = "game_info list \<times> (string \<times> team_game list) list"

text \<open>The body of the innermost loop when the variable has value 1.\<close>

definition record_game :: "league \<Rightarrow> nat \<Rightarrow> nat \<Rightarrow> nat \<Rightarrow> schedule \<Rightarrow> schedule option" where
  "record_game L w i j s = do {
     home_team \<leftarrow> map_of (idx_to_team L) i;
     away_team \<leftarrow> map_of (idx_to_team L) j;
     game_type \<leftarrow> game_type L w home_team away_team;
     ts1 \<leftarrow> append_game (snd s) home_team
              \<lparr>t_Week = w + 1, Opponent = away_team, Venue = ''Home'', t_Type = game_type\<rparr>;
     ts2 \<leftarrow> append_game ts1 away_team
              \<lparr>t_Week = w + 1, Opponent = home_team, Venue = ''Away'', t_Type = game_type\<rparr>;
     Some (fst s @ [\<lparr>Week = w + 1, Away = away_team, Home = home_team, Type = game_type\<rparr>], ts2)
   }"

definition extract_step :: "league \<Rightarrow> assignment \<Rightarrow> nat \<times> nat \<times> nat \<Rightarrow> schedule \<Rightarrow> schedule option" where
  "extract_step L \<sigma> = (\<lambda>(w, i, j) s.
     if i \<noteq> j \<and> \<sigma> (i, j, w) then record_game L w i j s else Some s)"

text \<open>A loop whose body may raise: the first failure ends it.\<close>

fun for_each :: "('a \<Rightarrow> 's \<Rightarrow> 's option) \<Rightarrow> 'a list \<Rightarrow> 's \<Rightarrow> 's option" where
  "for_each body [] s = Some s"
| "for_each body (x # xs) s = (case body x s of None \<Rightarrow> None | Some s' \<Rightarrow> for_each body xs s')"

text \<open>
  The extraction: \<open>games_by_week\<close> and \<open>team_schedules\<close> after the three nested loops
  over weeks, home teams and away teams.
\<close>

definition extract_schedule :: "league \<Rightarrow> assignment \<Rightarrow> schedule option" where
  "extract_schedule L \<sigma> =
     for_each (extract_step L \<sigma>)
       [(w, i, j). w \<leftarrow> [0..<W], i \<leftarrow> [0..<T L], j \<leftarrow> [0..<T L]]
       ([], dict_of [(team, []). team \<leftarrow> teams L])"

section \<open>The validation summary\<close>

text \<open>
  Every check prints one line per team, pair or game with a pass or fail mark; the
  model returns the printed quantities and the mark as a Boolean, in the order printed.
\<close>

text \<open>Total home/away balance of one team: home, away, total, mark.\<close>

definition total_balance :: "team_game list \<Rightarrow> nat \<times> nat \<times> nat \<times> bool" where
  "total_balance sched =
     (let home_games = length [g \<leftarrow> sched. Venue g = ''Home''];
          away_games = length [g \<leftarrow> sched. Venue g = ''Away''];
          total_games = home_games + away_games
      in (home_games, away_games, total_games, home_games = 7 \<and> away_games = 7))"

text \<open>Divisional home/away balance of one team.\<close>

definition divisional_balance :: "team_game list \<Rightarrow> nat \<times> nat \<times> nat \<times> bool" where
  "divisional_balance sched =
     (let div_home_games = length [g \<leftarrow> sched. Venue g = ''Home'' \<and> t_Type g = ''Division''];
          div_away_games = length [g \<leftarrow> sched. Venue g = ''Away'' \<and> t_Type g = ''Division''];
          div_total_games = div_home_games + div_away_games
      in (div_home_games, div_away_games, div_total_games,
          div_home_games = 3 \<and> div_away_games = 3))"

text \<open>
  Rivalry week: for each game of week 10 the first rivalry pair it matches, and whether
  as many were found as there are rivalry pairs.
\<close>

definition rivalry_found :: "league \<Rightarrow> game_info list \<Rightarrow> (string \<times> string) list" where
  "rivalry_found L games_by_week =
     concat [case find (\<lambda>rival_pair. (Home game, Away game) = rival_pair \<or>
                                     (Away game, Home game) = rival_pair) (rivals L) of
               None \<Rightarrow> [] | Some rival_pair \<Rightarrow> [rival_pair].
             game \<leftarrow> [g \<leftarrow> games_by_week. Week g = 10]]"

definition rivalry_check :: "league \<Rightarrow> game_info list \<Rightarrow> (string \<times> string) list \<times> bool" where
  "rivalry_check L games_by_week =
     (let found = rivalry_found L games_by_week
      in (found, length found = length (rivals L)))"

text \<open>
  The pairs \<open>(div_teams[i], div_teams[j])\<close> for \<open>i\<close> in \<open>range(4)\<close> and \<open>j\<close> in
  \<open>range(i+1, 4)\<close>; indexing a shorter division raises.
\<close>

definition getitem :: "'a list \<Rightarrow> nat \<Rightarrow> 'a option" where
  "getitem xs i = (if i < length xs then Some (xs ! i) else None)"

definition team_pairs :: "string list \<Rightarrow> (string \<times> string) list option" where
  "team_pairs div_teams = those [do {
       team1 \<leftarrow> getitem div_teams i;
       team2 \<leftarrow> getitem div_teams j;
       Some (team1, team2)
     }. i \<leftarrow> [0..<4], j \<leftarrow> [i + 1..<4]]"

text \<open>
  Divisional matchup balance of one pair: the week of the last game of \<open>team1\<close> against
  \<open>team2\<close> at home, the week of the last one away, and the mark: both are set (and not 0).
\<close>

definition last_week :: "team_game list \<Rightarrow> nat option" where
  "last_week gs = (if gs = [] then None else Some (t_Week (last gs)))"

definition truthy :: "nat option \<Rightarrow> bool" where
  "truthy x = (case x of None \<Rightarrow> False | Some n \<Rightarrow> n \<noteq> 0)"

definition matchup_balance :: "team_game list \<Rightarrow> string \<Rightarrow> nat option \<times> nat option \<times> bool" where
  "matchup_balance sched team2 =
     (let team1_home = last_week [g \<leftarrow> sched. Opponent g = team2 \<and> Venue g = ''Home''];
          team2_home = last_week [g \<leftarrow> sched. Opponent g = team2 \<and> Venue g \<noteq> ''Home'']
      in (team1_home, team2_home, truthy team1_home \<and> truthy team2_home))"

text \<open>
  Division game separation of one pair: the sorted weeks of the games of \<open>team1\<close>
  against \<open>team2\<close>; a line (weeks, gap, mark) is printed only when there are two.
\<close>

definition game_weeks :: "team_game list \<Rightarrow> string \<Rightarrow> nat list" where
  "game_weeks sched team2 = sort [t_Week game. game \<leftarrow> sched, Opponent game = team2]"

definition separation_line :: "nat list \<Rightarrow> (nat \<times> nat \<times> nat \<times> bool) list" where
  "separation_line weeks =
     (if length weeks = 2 then
        (let separation = nat \<bar>int (weeks ! 1) - int (weeks ! 0)\<bar>
         in [(weeks ! 0, weeks ! 1, separation, separation \<ge> 3)])
      else [])"

text \<open>
  Consecutive division games of one team: the sorted weeks of its division games, the
  count in the window starting at week \<open>w1\<close>, the maximum over the windows 1 to 12, the
  mark, and the windows with more than 2.
\<close>

definition div_weeks :: "team_game list \<Rightarrow> nat list" where
  "div_weeks sched = sort [t_Week g. g \<leftarrow> [g \<leftarrow> sched. t_Type g = ''Division'']]"

definition div_games_in_window :: "nat list \<Rightarrow> nat \<Rightarrow> nat" where
  "div_games_in_window weeks w1 = length [w \<leftarrow> weeks. w \<in> set [w1, w1 + 1, w1 + 2]]"

definition consecutive_division :: "team_game list \<Rightarrow> nat \<times> bool \<times> nat list" where
  "consecutive_division sched =
     (let weeks = div_weeks sched;
          max_consecutive = foldl (\<lambda>m w1. max m (div_games_in_window weeks w1)) 0 [1..<13];
          violations = [w1 \<leftarrow> [1..<13]. div_games_in_window weeks w1 > 2]
      in (max_consecutive, max_consecutive \<le> 2, violations))"

text \<open>Division games of one team in the last 8 weeks: count and mark.\<close>

definition last_8_division :: "team_game list \<Rightarrow> nat \<times> bool" where
  "last_8_division sched =
     (let last_8_div_games = length [g \<leftarrow> sched. t_Type g = ''Division'' \<and> t_Week g \<ge> 7]
      in (last_8_div_games, last_8_div_games \<ge> 3))"

text \<open>
  Final week: the mark of each game of week 14, whether all are divisional, and how
  many are.
\<close>

definition final_week_check :: "game_info list \<Rightarrow> bool list \<times> bool \<times> nat" where
  "final_week_check games_by_week =
     (let week_14_games = [g \<leftarrow> games_by_week. Week g = 14];
          marks = [Type game = ''Division''. game \<leftarrow> week_14_games]
      in (marks, list_all (\<lambda>m. m) marks, length [m \<leftarrow> marks. m]))"

text \<open>
  Consecutive home/away games of one team: the state of the streak loop, its body for
  the venues from the second on, and the closing of the last streak. A violation is the
  length of the streak and its venue; \<open>current_venue.lower()\<close> raises when there is no
  venue.
\<close>

record streak_state =
  current_venue :: "string option"
  current_streak :: nat
  max_home_streak :: nat
  max_away_streak :: nat
  violations :: "(nat \<times> string) list"

definition end_streak :: "streak_state \<Rightarrow> streak_state option" where
  "end_streak s =
     (let s1 = (if current_venue s = Some ''Home''
                then s\<lparr>max_home_streak := max (max_home_streak s) (current_streak s)\<rparr>
                else s\<lparr>max_away_streak := max (max_away_streak s) (current_streak s)\<rparr>)
      in if current_streak s > 3 then
           (case current_venue s of
              None \<Rightarrow> None
            | Some v \<Rightarrow> Some (s1\<lparr>violations := violations s1 @ [(current_streak s, v)]\<rparr>))
         else Some s1)"

definition streak_step :: "string \<Rightarrow> streak_state \<Rightarrow> streak_state option" where
  "streak_step venue s =
     (if Some venue = current_venue s then Some (s\<lparr>current_streak := current_streak s + 1\<rparr>)
      else map_option (\<lambda>s'. s'\<lparr>current_venue := Some venue, current_streak := 1\<rparr>)
             (end_streak s))"

definition streaks :: "team_game list \<Rightarrow> (nat \<times> nat \<times> bool \<times> (nat \<times> string) list) option" where
  "streaks sched =
     (let team_games = sort_key t_Week sched;
          venues = map Venue team_games;
          start = \<lparr>current_venue = (if venues \<noteq> [] then Some (hd venues) else None),
                   current_streak = 1, max_home_streak = 0, max_away_streak = 0,
                   violations = []\<rparr>
      in do {
        s \<leftarrow> for_each streak_step (tl venues) start;
        s' \<leftarrow> end_streak s;
        Some (max_home_streak s', max_away_streak s', violations s' = [], violations s')
      })"

text \<open>
  Non-division matchups of one team: the games counted per opponent, and the opponents
  of another division met more than once.
\<close>

definition opponent_counts :: "team_game list \<Rightarrow> (string \<times> nat) list" where
  "opponent_counts team_games =
     foldl (\<lambda>counts game.
              AList.update (Opponent game)
                ((case map_of counts (Opponent game) of None \<Rightarrow> 0 | Some c \<Rightarrow> c) + 1) counts)
           [] team_games"

definition non_division_check ::
  "league \<Rightarrow> string \<Rightarrow> team_game list \<Rightarrow> (bool \<times> (string \<times> nat) list) option" where
  "non_division_check L team team_games = do {
     team_div \<leftarrow> map_of (div_of L) team;
     violations \<leftarrow> map_option concat (those [do {
         opponent_div \<leftarrow> map_of (div_of L) opponent;
         Some (if opponent_div \<noteq> team_div \<and> count > 1 then [(opponent, count)] else [])
       }. (opponent, count) \<leftarrow> opponent_counts team_games]);
     Some (violations = [], violations)
   }"

text \<open>Opponent breakdown of one team: division, opposite and cross games, and the mark.\<close>

definition opponent_breakdown :: "team_game list \<Rightarrow> nat \<times> nat \<times> nat \<times> bool" where
  "opponent_breakdown sched =
     (let div_games = length [g \<leftarrow> sched. t_Type g = ''Division''];
          opp_games = length [g \<leftarrow> sched. t_Type g = ''Opposite''];
          cross_games = length [g \<leftarrow> sched. t_Type g \<in> set [''Cross-Division'', ''Rivalry'']]
      in (div_games, opp_games, cross_games,
          div_games = 6 \<and> opp_games = 4 \<and> cross_games = 4))"

text \<open>
  The whole summary, check after check; a check over the teams reads
  \<open>team_schedules[team]\<close> for every team, a check over the divisional pairs reads
  \<open>team_schedules[team1]\<close> for every pair of every division.
\<close>

definition per_team ::
  "league \<Rightarrow> (string \<times> team_game list) list \<Rightarrow> (string \<Rightarrow> team_game list \<Rightarrow> 'a option)
     \<Rightarrow> (string \<times> 'a) list option" where
  "per_team L team_schedules check = those [do {
       sched \<leftarrow> map_of team_schedules team;
       r \<leftarrow> check team sched;
       Some (team, r)
     }. team \<leftarrow> teams L]"

definition per_pair ::
  "league \<Rightarrow> (string \<times> team_game list) list \<Rightarrow> (team_game list \<Rightarrow> string \<Rightarrow> 'a)
     \<Rightarrow> ((string \<times> string) \<times> 'a) list list option" where
  "per_pair L team_schedules check = those [do {
       pairs \<leftarrow> team_pairs div_teams;
       those [do {
           sched \<leftarrow> map_of team_schedules team1;
           Some ((team1, team2), check sched team2)
         }. (team1, team2) \<leftarrow> pairs]
     }. div_teams \<leftarrow> map snd (teams_by_div L)]"

record validation =
  total_home_away :: "(string \<times> nat \<times> nat \<times> nat \<times> bool) list"
  divisional_home_away :: "(string \<times> nat \<times> nat \<times> nat \<times> bool) list"
  rivalry_week_10 :: "(string \<times> string) list \<times> bool"
  divisional_matchup :: "((string \<times> string) \<times> nat option \<times> nat option \<times> bool) list list"
  division_separation :: "((string \<times> string) \<times> (nat \<times> nat \<times> nat \<times> bool) list) list list"
  consecutive_division_games :: "(string \<times> nat \<times> bool \<times> nat list) list"
  last_8_weeks_division :: "(string \<times> nat \<times> bool) list"
  final_week_drama :: "bool list \<times> bool \<times> nat"
  consecutive_home_away :: "(string \<times> nat \<times> nat \<times> bool \<times> (nat \<times> string) list) list"
  non_division_matchups :: "(string \<times> bool \<times> (string \<times> nat) list) list"
  opponent_breakdowns :: "(string \<times> nat \<times> nat \<times> nat \<times> bool) list"

definition validation_summary :: "league \<Rightarrow> schedule \<Rightarrow> validation option" where
  "validation_summary L s =
     (let games_by_week = fst s; team_schedules = snd s in do {
        c1 \<leftarrow> per_team L team_schedules (\<lambda>team sched. Some (total_balance sched));
        c2 \<leftarrow> per_team L team_schedules (\<lambda>team sched. Some (divisional_balance sched));
        c4 \<leftarrow> per_pair L team_schedules matchup_balance;
        c5 \<leftarrow> per_pair L team_schedules (\<lambda>sched team2. separation_line (game_weeks sched team2));
        c6 \<leftarrow> per_team L team_schedules (\<lambda>team sched. Some (consecutive_division sched));
        c7 \<leftarrow> per_team L team_schedules (\<lambda>team sched. Some (last_8_division sched));
        c9 \<leftarrow> per_team L team_schedules (\<lambda>team sched. streaks sched);
        c10 \<leftarrow> per_team L team_schedules (non_division_check L);
        c11 \<leftarrow> per_team L team_schedules (\<lambda>team sched. Some (opponent_breakdown sched));
        Some \<lparr>total_home_away = c1, divisional_home_away = c2,
              rivalry_week_10 = rivalry_check L games_by_week,
              divisional_matchup = c4, division_separation = c5,
              consecutive_division_games = c6, last_8_weeks_division = c7,
              final_week_drama = final_week_check games_by_week,
              consecutive_home_away = c9, non_division_matchups = c10,
              opponent_breakdowns = c11\<rparr>
      })"

text \<open>
  The branch of the module taken when the solver reports a solution: extraction, then
  the validation summary. \<open>None\<close> is any exception raised on the way.
\<close>

definition report :: "league \<Rightarrow> assignment \<Rightarrow> (schedule \<times> validation) option" where
  "report L \<sigma> = do {
     s \<leftarrow> extract_schedule L \<sigma>;
     v \<leftarrow> validation_summary L s;
     Some (s, v)
   }"

section \<open>The module's league in index form\<close>

text \<open>
  Auxiliary notions for the proofs: the tables of the module's league by index, and the
  constraints each family adds for it, written out.
\<close>

definition somes :: "'a list \<Rightarrow> 'a option list" where "somes xs = map Some xs"

definition module_div_pairs :: "(nat \<times> nat) list" where
  "module_div_pairs = [(4 * d + a, 4 * d + b). d \<leftarrow> [0..<4], a \<leftarrow> [0..<4], b \<leftarrow> [a + 1..<4]]"

definition team_name :: "nat \<Rightarrow> string" where
  "team_name i = teams module_league ! i"

definition division_name :: "nat \<Rightarrow> string" where
  "division_name d = map fst (teams_by_div module_league) ! d"

definition opposite_index :: "nat \<Rightarrow> nat" where
  "opposite_index d = [1, 0, 3, 2] ! d"

definition mates :: "nat \<Rightarrow> nat list" where
  "mates i = [j \<leftarrow> [4 * (i div 4)..<4 * (i div 4) + 4]. j \<noteq> i]"

definition others :: "nat \<Rightarrow> nat list" where
  "others i = [j \<leftarrow> [0..<16]. j div 4 \<noteq> i div 4]"

definition pair_vars :: "nat \<Rightarrow> nat \<Rightarrow> var list" where
  "pair_vars i j = concat [[(i, j, w), (j, i, w)]. w \<leftarrow> [0..<14]]"

definition div_vars :: "nat \<Rightarrow> nat list \<Rightarrow> var list" where
  "div_vars i ws = concat [[(i, j, w), (j, i, w)]. w \<leftarrow> ws, j \<leftarrow> mates i]"

definition c8_form :: "constraint list" where
  "c8_form = [SumLe (div_vars i [w1, w1 + 1, w1 + 2]) 2. i \<leftarrow> [0..<16], w1 \<leftarrow> [0..<12]]"

definition module_rival_pairs :: "(nat \<times> nat) list" where
  "module_rival_pairs = [(3, 11), (6, 8), (0, 12), (1, 13), (4, 15), (2, 10), (5, 14), (7, 9)]"

definition module_opposite_lists :: "(nat list \<times> nat list) list" where
  "module_opposite_lists = [([0, 1, 2, 3], [4, 5, 6, 7]), ([8, 9, 10, 11], [12, 13, 14, 15])]"

definition module_opposite_pairs :: "(nat \<times> nat) list" where
  "module_opposite_pairs = [(i, j). (d1, d2) \<leftarrow> module_opposite_lists, i \<leftarrow> d1, j \<leftarrow> d2]"

definition c1_form :: "constraint list" where
  "c1_form = [SumEq ([(i, j, w). j \<leftarrow> [0..<16], j \<noteq> i] @ [(j, i, w). j \<leftarrow> [0..<16], j \<noteq> i]) 1.
              w \<leftarrow> [0..<14], i \<leftarrow> [0..<16]]"

definition c2_form :: "constraint list" where
  "c2_form = [SumEq [(i, j, w). i \<leftarrow> [0..<16], j \<leftarrow> [0..<16], i \<noteq> j] 8. w \<leftarrow> [0..<14]]"

definition c3_form :: "constraint list" where
  "c3_form = [SumEq (pair_vars i j) 2. (i, j) \<leftarrow> module_div_pairs]"

definition c4_form :: "constraint list" where
  "c4_form = [SumEq (pair_vars i j) 1. (i, j) \<leftarrow> module_opposite_pairs]"

definition c4b_form :: "constraint list" where
  "c4b_form = concat [
     [SumEq [(i, j, w). j \<leftarrow> d2, w \<leftarrow> [0..<14]] 2. i \<leftarrow> d1] @
     [SumEq [(j, i, w). i \<leftarrow> d1, w \<leftarrow> [0..<14]] 2. j \<leftarrow> d2].
     (d1, d2) \<leftarrow> module_opposite_lists]"

definition c5_form :: "constraint list" where
  "c5_form = concat [
     [SumEq [(i, j, w). w \<leftarrow> [0..<14], j \<leftarrow> [0..<16], i \<noteq> j] 7,
      SumEq [(j, i, w). w \<leftarrow> [0..<14], j \<leftarrow> [0..<16], i \<noteq> j] 7]. i \<leftarrow> [0..<16]]"

definition c5b_form :: "constraint list" where
  "c5b_form = concat [
     [SumEq [(i, j, w). w \<leftarrow> [0..<14]] 1, SumEq [(j, i, w). w \<leftarrow> [0..<14]] 1].
     (i, j) \<leftarrow> module_div_pairs]"

definition c6_form :: "constraint list" where
  "c6_form = [SumEq [(a, b, 9), (b, a, 9)] 1. (a, b) \<leftarrow> module_rival_pairs]"

definition c7_form :: "constraint list" where
  "c7_form = [SumLe [(i, j, w1), (j, i, w1), (i, j, w2), (j, i, w2)] 1.
              (i, j) \<leftarrow> module_div_pairs, w1 \<leftarrow> [0..<14], w2 \<leftarrow> [w1 + 1..<min (w1 + 3) 14]]"

definition c9_form :: "constraint list" where
  "c9_form = [SumGe (div_vars i [6..<14]) 3. i \<leftarrow> [0..<16]]"

definition c10_form :: "constraint list" where
  "c10_form = [SumLe (pair_vars i j) 1. i \<leftarrow> [0..<16], j \<leftarrow> others i]"

definition c11_form :: "constraint list" where
  "c11_form = concat [[SumEq [(i, j, 13)] 0, SumEq [(j, i, 13)] 0]. i \<leftarrow> [0..<16], j \<leftarrow> others i]"

definition c12_form :: "constraint list" where
  "c12_form = concat [
     [SumLe [(i, j, w). w \<leftarrow> [w1, w1 + 1, w1 + 2, w1 + 3], j \<leftarrow> [0..<16], i \<noteq> j] 3.
        w1 \<leftarrow> [0..<11]] @
     [SumLe [(j, i, w). w \<leftarrow> [w1, w1 + 1, w1 + 2, w1 + 3], j \<leftarrow> [0..<16], i \<noteq> j] 3.
        w1 \<leftarrow> [0..<11]].
     i \<leftarrow> [0..<16]]"

text \<open>
  The value of \<open>matches[i][j][w]\<close> as a number (0 where \<open>i = j\<close> and there is no
  variable), and the number of games between \<open>i\<close> and \<open>j\<close> in week \<open>w\<close>.
\<close>

definition hosts :: "assignment \<Rightarrow> nat \<Rightarrow> nat \<Rightarrow> nat \<Rightarrow> nat" where
  "hosts \<sigma> i j w = (if i \<noteq> j \<and> \<sigma> (i, j, w) then 1 else 0)"

definition meet :: "assignment \<Rightarrow> nat \<Rightarrow> nat \<Rightarrow> nat \<Rightarrow> nat" where
  "meet \<sigma> i j w = hosts \<sigma> i j w + hosts \<sigma> j i w"

text \<open>
  The extraction in index form: the type of the game in which \<open>i\<close> hosts \<open>j\<close> in week
  \<open>w\<close>, the record and the two schedule entries it produces, and what the loop appends
  for a list of loop positions \<open>(w, i, j)\<close>.
\<close>

definition is_rival :: "nat \<Rightarrow> nat \<Rightarrow> bool" where
  "is_rival i j = ((i, j) \<in> set module_rival_pairs \<or> (j, i) \<in> set module_rival_pairs)"

definition rival_of :: "nat \<Rightarrow> nat" where
  "rival_of t = [12, 13, 10, 11, 15, 14, 8, 9, 6, 7, 2, 3, 0, 1, 5, 4] ! t"

definition type_of :: "nat \<Rightarrow> nat \<Rightarrow> nat \<Rightarrow> string" where
  "type_of w i j =
     (if i div 4 = j div 4 then ''Division''
      else if j div 4 = opposite_index (i div 4) then ''Opposite''
      else if w = 9 \<and> is_rival i j then ''Rivalry''
      else ''Cross-Division'')"

definition game_of :: "nat \<Rightarrow> nat \<Rightarrow> nat \<Rightarrow> game_info" where
  "game_of w i j = \<lparr>Week = w + 1, Away = team_name j, Home = team_name i, Type = type_of w i j\<rparr>"

definition home_entry :: "nat \<Rightarrow> nat \<Rightarrow> nat \<Rightarrow> team_game" where
  "home_entry w i j =
     \<lparr>t_Week = w + 1, Opponent = team_name j, Venue = ''Home'', t_Type = type_of w i j\<rparr>"

definition away_entry :: "nat \<Rightarrow> nat \<Rightarrow> nat \<Rightarrow> team_game" where
  "away_entry w i j =
     \<lparr>t_Week = w + 1, Opponent = team_name i, Venue = ''Away'', t_Type = type_of w i j\<rparr>"

definition loop_order :: "(nat \<times> nat \<times> nat) list" where
  "loop_order = [(w, i, j). w \<leftarrow> [0..<14], i \<leftarrow> [0..<16], j \<leftarrow> [0..<16]]"

definition games_of :: "assignment \<Rightarrow> (nat \<times> nat \<times> nat) list \<Rightarrow> game_info list" where
  "games_of \<sigma> xs =
     concat (map (\<lambda>(w, i, j). if i \<noteq> j \<and> \<sigma> (i, j, w) then [game_of w i j] else []) xs)"

definition entries_of :: "assignment \<Rightarrow> nat \<Rightarrow> (nat \<times> nat \<times> nat) list \<Rightarrow> team_game list" where
  "entries_of \<sigma> t xs =
     concat (map (\<lambda>(w, i, j).
       if i \<noteq> j \<and> \<sigma> (i, j, w)
       then (if i = t then [home_entry w i j] else []) @ (if j = t then [away_entry w i j] else [])
       else []) xs)"

definition schedules_of :: "assignment \<Rightarrow> (string \<times> team_game list) list" where
  "schedules_of \<sigma> = map (\<lambda>t. (team_name t, entries_of \<sigma> t loop_order)) [0..<16]"

text \<open>
  A schedule found for the module's league, week by week as (home, away) index pairs,
  and the assignment that is 1 exactly on its games.
\<close>

definition example_schedule :: "(nat \<times> nat) list list" where
  "example_schedule =
   [[(0, 1), (2, 3), (5, 4), (6, 7), (8, 9), (10, 11), (12, 13), (14, 15)],
    [(0, 4), (3, 7), (5, 1), (6, 2), (9, 13), (12, 8), (14, 10), (15, 11)],
    [(0, 5), (1, 6), (2, 7), (4, 3), (9, 14), (10, 15), (11, 12), (13, 8)],
    [(2, 0), (3, 1), (6, 4), (7, 5), (8, 10), (9, 11), (12, 14), (13, 15)],
    [(4, 2), (5, 3), (6, 0), (7, 1), (8, 14), (10, 12), (11, 13), (15, 9)],
    [(0, 3), (2, 1), (4, 7), (5, 6), (9, 10), (11, 8), (14, 13), (15, 12)],
    [(1, 4), (2, 5), (3, 6), (7, 0), (8, 15), (12, 9), (13, 10), (14, 11)],
    [(0, 9), (4, 12), (5, 13), (6, 14), (8, 3), (10, 1), (11, 2), (15, 7)],
    [(1, 0), (3, 2), (4, 5), (7, 6), (9, 8), (11, 10), (13, 12), (15, 14)],
    [(1, 13), (2, 10), (3, 11), (6, 8), (7, 9), (12, 0), (14, 5), (15, 4)],
    [(0, 10), (5, 15), (8, 2), (9, 3), (11, 1), (12, 6), (13, 7), (14, 4)],
    [(0, 2), (1, 3), (4, 6), (5, 7), (10, 8), (11, 9), (14, 12), (15, 13)],
    [(1, 14), (2, 15), (3, 12), (4, 8), (7, 11), (9, 5), (10, 6), (13, 0)],
    [(1, 2), (3, 0), (6, 5), (7, 4), (8, 11), (10, 9), (12, 15), (13, 14)]]"

definition example_value :: assignment where
  "example_value = (\<lambda>(i, j, w). w < length example_schedule \<and> (i, j) \<in> set (example_schedule ! w))"

section \<open>Evaluating the tables and the model of the module's league\<close>

lemma those_somes: "those (somes xs) = Some xs"
  by (induction xs) (simp_all add: somes_def)

lemma somes_intros:
  "[Some x] = somes [x]"
  "Some x # somes xs = somes (x # xs)"
  "somes xs @ somes ys = somes (xs @ ys)"
  "(if c then somes xs else []) = somes (if c then xs else [])"
  "(if c then [] else somes xs) = somes (if c then [] else xs)"
  "(if c then somes xs else somes ys) = somes (if c then xs else ys)"
  "concat (map (\<lambda>x. somes (F x)) zs) = somes (concat (map F zs))"
  "map (\<lambda>x. Some (f x)) zs = somes (map f zs)"
  by (simp_all add: somes_def map_concat comp_def)

lemma those_map_Some: "(\<And>x. x \<in> set xs \<Longrightarrow> f x = Some (g x)) \<Longrightarrow> those (map f xs) = Some (map g xs)"
  by (induction xs) simp_all

lemma concat_map_upt_cong:
  "(\<And>x. m \<le> x \<Longrightarrow> x < n \<Longrightarrow> f x = g x) \<Longrightarrow> concat (map f [m..<n]) = concat (map g [m..<n])"
  by (rule arg_cong[where f=concat]) simp

lemma map_upt_cong:
  "(\<And>x. m \<le> x \<Longrightarrow> x < n \<Longrightarrow> f x = g x) \<Longrightarrow> map f [m..<n] = map g [m..<n]"
  by simp

lemmas eval_cong = map_upt_cong concat_map_upt_cong if_cong

lemma teams_by_div_module: "teams_by_div module_league =
       [(''North'', [''Thor'', ''Blake'', ''Abe'', ''DTM'']),
        (''South'', [''Samran'', ''Nasties'', ''Thomas'', ''Shooter'']),
        (''East'', [''Emelie'', ''AMO'', ''Lukose'', ''Sydney'']),
        (''West'', [''Nick'', ''Rej'', ''Saagar'', ''Dino''])]"
  by (simp add: module_league_def)

lemma rivals_module: "rivals module_league =
       [(''DTM'', ''Sydney''), (''Thomas'', ''Emelie''), (''Thor'', ''Nick''),
        (''Blake'', ''Rej''), (''Samran'', ''Dino''), (''Abe'', ''Lukose''),
        (''Nasties'', ''Saagar''), (''Shooter'', ''AMO'')]"
  by (simp add: module_league_def)

lemma teams_module: "teams module_league = [''Thor'', ''Blake'', ''Abe'', ''DTM'', ''Samran'', ''Nasties'', ''Thomas'',
    ''Shooter'', ''Emelie'', ''AMO'', ''Lukose'', ''Sydney'', ''Nick'', ''Rej'', ''Saagar'', ''Dino'']"
  by (simp add: teams_def teams_by_div_module)

lemma T_module: "T module_league = 16"
  by (simp add: T_def teams_module)

lemma idx_module: "idx module_league = [(''Thor'', 0), (''Blake'', 1), (''Abe'', 2), (''DTM'', 3), (''Samran'', 4),
  (''Nasties'', 5), (''Thomas'', 6), (''Shooter'', 7), (''Emelie'', 8), (''AMO'', 9),
  (''Lukose'', 10), (''Sydney'', 11), (''Nick'', 12), (''Rej'', 13), (''Saagar'', 14),
  (''Dino'', 15)]"
  by (simp add: idx_def teams_module dict_of_def enumerate_eq_zip upt_rec)

lemma idx_to_team_module: "idx_to_team module_league = [(0, ''Thor''), (1, ''Blake''), (2, ''Abe''), (3, ''DTM''),
  (4, ''Samran''), (5, ''Nasties''), (6, ''Thomas''), (7, ''Shooter''),
  (8, ''Emelie''), (9, ''AMO''), (10, ''Lukose''), (11, ''Sydney''),
  (12, ''Nick''), (13, ''Rej''), (14, ''Saagar''), (15, ''Dino'')]"
  by (simp add: idx_to_team_def idx_module dict_of_def)

lemma div_of_module: "div_of module_league = [(''Thor'', ''North''), (''Blake'', ''North''), (''Abe'', ''North''), (''DTM'', ''North''),
  (''Samran'', ''South''), (''Nasties'', ''South''), (''Thomas'', ''South''), (''Shooter'', ''South''),
  (''Emelie'', ''East''), (''AMO'', ''East''), (''Lukose'', ''East''), (''Sydney'', ''East''),
  (''Nick'', ''West''), (''Rej'', ''West''), (''Saagar'', ''West''), (''Dino'', ''West'')]"
  by (simp add: div_of_def teams_by_div_module dict_of_def)

lemma div_pairs_module: "div_pairs module_league = Some module_div_pairs"
  by (simp add: div_pairs_def idx_module teams_by_div_module module_div_pairs_def upt_rec)

lemma module_div_pairs_eq: "module_div_pairs =
  [(0, 1), (0, 2), (0, 3), (1, 2), (1, 3), (2, 3), (4, 5), (4, 6), (4, 7),
   (5, 6), (5, 7), (6, 7), (8, 9), (8, 10), (8, 11), (9, 10), (9, 11),
   (10, 11), (12, 13), (12, 14), (12, 15), (13, 14), (13, 15), (14, 15)]"
  by (simp add: module_div_pairs_def upt_rec)

lemma opposite_indices_module:
  "opposite_indices module_league = Some module_opposite_lists"
  by (simp add: opposite_indices_def idx_module teams_by_div_module module_opposite_lists_def)

lemma all_lt14: "(\<forall>w<14::nat. P w) = (P 0 \<and> P 1 \<and> P 2 \<and> P 3 \<and> P 4 \<and> P 5 \<and> P 6 \<and> P 7 \<and> P 8 \<and> P 9 \<and> P 10 \<and> P 11 \<and> P 12 \<and> P 13)"
  by (simp add: eval_nat_numeral All_less_Suc conj_ac)

lemma all_lt16: "(\<forall>w<16::nat. P w) = (P 0 \<and> P 1 \<and> P 2 \<and> P 3 \<and> P 4 \<and> P 5 \<and> P 6 \<and> P 7 \<and> P 8 \<and> P 9 \<and> P 10 \<and> P 11 \<and> P 12 \<and> P 13 \<and> P 14 \<and> P 15)"
  by (simp add: eval_nat_numeral All_less_Suc conj_ac)

lemma upt16: "[0..<16] = [0,1,2,3,4,5,6,7,8,9,10,11,12,13,14,15::nat]"
  by (simp add: upt_rec)

lemma idx_to_team_lookup: "i < 16 \<Longrightarrow> map_of (idx_to_team module_league) i = Some (team_name i)"
proof -
  have "\<forall>i<16. map_of (idx_to_team module_league) i = Some (team_name i)"
    unfolding all_lt16 by (simp add: idx_to_team_module team_name_def teams_module)
  then show "i < 16 \<Longrightarrow> map_of (idx_to_team module_league) i = Some (team_name i)" by blast
qed

lemma idx_lookup: "i < 16 \<Longrightarrow> map_of (idx module_league) (team_name i) = Some i"
proof -
  have "\<forall>i<16. map_of (idx module_league) (team_name i) = Some i"
    unfolding all_lt16 by (simp add: idx_module team_name_def teams_module)
  then show "i < 16 \<Longrightarrow> map_of (idx module_league) (team_name i) = Some i" by blast
qed

lemma div_of_lookup:
  "i < 16 \<Longrightarrow> map_of (div_of module_league) (team_name i) = Some (division_name (i div 4))"
proof -
  have "\<forall>i<16. map_of (div_of module_league) (team_name i) = Some (division_name (i div 4))"
    unfolding all_lt16
    by (simp add: div_of_module team_name_def teams_module division_name_def teams_by_div_module)
  then show "i < 16 \<Longrightarrow> map_of (div_of module_league) (team_name i) = Some (division_name (i div 4))"
    by blast
qed

lemma team_name_inj: "i < 16 \<Longrightarrow> j < 16 \<Longrightarrow> team_name i = team_name j \<longleftrightarrow> i = j"
  using idx_lookup[of i] idx_lookup[of j] by (metis option.inject)

lemma all_lt4: "(\<forall>d<4::nat. P d) = (P 0 \<and> P 1 \<and> P 2 \<and> P 3)"
  by (simp add: eval_nat_numeral All_less_Suc conj_ac)

lemma division_name_inj: "a < 4 \<Longrightarrow> b < 4 \<Longrightarrow> division_name a = division_name b \<longleftrightarrow> a = b"
proof -
  have "\<forall>a<4. \<forall>b<4. division_name a = division_name b \<longleftrightarrow> a = b"
    unfolding all_lt4 by (simp add: division_name_def teams_by_div_module)
  then show "a < 4 \<Longrightarrow> b < 4 \<Longrightarrow> division_name a = division_name b \<longleftrightarrow> a = b" by blast
qed

lemma opposite_lookup:
  "d < 4 \<Longrightarrow> map_of opposite (division_name d) = Some (division_name (opposite_index d))"
proof -
  have "\<forall>d<4. map_of opposite (division_name d) = Some (division_name (opposite_index d))"
    unfolding all_lt4 by (simp add: division_name_def teams_by_div_module opposite_def opposite_index_def)
  then show "d < 4 \<Longrightarrow> map_of opposite (division_name d) = Some (division_name (opposite_index d))"
    by blast
qed

lemma teams_by_div_lookup:
  "d < 4 \<Longrightarrow> map_of (teams_by_div module_league) (division_name d) = Some (map team_name [4 * d..<4 * d + 4])"
proof -
  have "\<forall>d<4. map_of (teams_by_div module_league) (division_name d) = Some (map team_name [4 * d..<4 * d + 4])"
    unfolding all_lt4
    by (simp add: division_name_def teams_by_div_module team_name_def teams_module upt_rec)
  then show "d < 4 \<Longrightarrow> map_of (teams_by_div module_league) (division_name d) = Some (map team_name [4 * d..<4 * d + 4])"
    by blast
qed

lemma concat_map_if:
  "concat (map (\<lambda>x. if P x then [f x] else []) xs) = map f (filter P xs)"
  by (induction xs) simp_all

lemma div4_lt: "i < 16 \<Longrightarrow> i div 4 < (4::nat)"
  by simp

lemma team_div_indices_module: "i < 16 \<Longrightarrow> team_div_indices module_league i = Some (mates i)"
proof -
  assume i: "i < 16"
  have "those (concat (map (\<lambda>x. if team_name x \<noteq> team_name i then [map_of (idx module_league) (team_name x)] else [])
            [4 * (i div 4)..<4 * (i div 4) + 4])) = Some (mates i)"
  proof -
    have le: "4 * (i div 4) + 4 \<le> 16" using i by simp
    have "concat (map (\<lambda>x. if team_name x \<noteq> team_name i then [map_of (idx module_league) (team_name x)] else [])
            [4 * (i div 4)..<4 * (i div 4) + 4]) = somes (mates i)"
      unfolding mates_def somes_def using i le
      by (simp add: idx_lookup team_name_inj concat_map_if cong: eval_cong)
    then show ?thesis by (simp add: those_somes)
  qed
  then show ?thesis using i
    by (simp add: team_div_indices_def idx_to_team_lookup div_of_lookup teams_by_div_lookup comp_def)
qed

lemma non_division_teams_module: "i < 16 \<Longrightarrow> non_division_teams module_league i = Some (others i)"
proof -
  assume i: "i < 16"
  have "map (\<lambda>j. if j \<noteq> i then Option.bind (map_of (idx_to_team module_league) j) (\<lambda>other.
           Option.bind (map_of (div_of module_league) other) (\<lambda>other_div.
             Some (if other_div \<noteq> division_name (i div 4) then [j] else []))) else Some []) [0..<16]
        = somes (map (\<lambda>j. if j div 4 \<noteq> i div 4 then [j] else []) [0..<16])"
    unfolding somes_def using i
    by (simp add: idx_to_team_lookup div_of_lookup division_name_inj cong: eval_cong)
  then show ?thesis using i
    by (simp add: non_division_teams_def idx_to_team_lookup div_of_lookup T_module those_somes
        others_def concat_map_if[where f="\<lambda>x. x", simplified])
qed

lemma map_filter_conv:
  "map f (filter P xs) = concat (map (\<lambda>x. if P x then [f x] else []) xs)"
  "concat (map F (filter P xs)) = concat (map (\<lambda>x. if P x then F x else []) xs)"
  by (induction xs) simp_all

lemma guarded_match_module:
  "i < 16 \<Longrightarrow> j < 16 \<Longrightarrow> i \<noteq> j \<Longrightarrow> w < 14 \<Longrightarrow> guarded_match module_league i j w = Some [(i, j, w)]"
  by (simp add: guarded_match_def has_match_def matches_def T_module W_def)

lemma mates_bound: "i < 16 \<Longrightarrow> 4 * (i div 4) + 4 \<le> (16::nat)"
  by simp

lemma those_append:
  "those (xs @ ys) = (case those xs of None \<Rightarrow> None | Some a \<Rightarrow> map_option ((@) a) (those ys))"
proof (induction xs)
  case Nil
  show ?case by (cases "those ys") simp_all
next
  case (Cons x xs)
  then show ?case by (cases x; cases "those xs"; cases "those ys") simp_all
qed

lemma those_concat_map_map:
  "(\<And>x y. x \<in> set xs \<Longrightarrow> y \<in> set ys \<Longrightarrow> f x y = Some (g x y)) \<Longrightarrow>
   those (concat (map (\<lambda>x. map (f x) ys) xs)) = Some (concat (map (\<lambda>x. map (g x) ys) xs))"
  by (induction xs) (simp_all add: those_append those_map_Some)

lemma division_games_module:
  assumes "i < 16" "\<forall>w\<in>set ws. w < 14"
  shows "division_games module_league i (mates i) ws = Some (div_vars i ws)"
proof -
  have "\<And>w j. w \<in> set ws \<Longrightarrow> j \<in> set (mates i) \<Longrightarrow>
      Option.bind (guarded_match module_league i j w) (\<lambda>home.
        Option.bind (guarded_match module_league j i w) (\<lambda>away. Some (home @ away)))
      = Some [(i, j, w), (j, i, w)]"
    using assms mates_bound[of i] by (auto simp: mates_def guarded_match_module)
  then have "those (concat (map (\<lambda>w. map (\<lambda>j. Option.bind (guarded_match module_league i j w) (\<lambda>home.
        Option.bind (guarded_match module_league j i w) (\<lambda>away. Some (home @ away)))) (mates i)) ws))
      = Some (concat (map (\<lambda>w. map (\<lambda>j. [(i, j, w), (j, i, w)]) (mates i)) ws))"
    by (rule those_concat_map_map)
  then show ?thesis
    by (simp add: division_games_def div_vars_def)
qed

lemma mates_nonempty: "i < 16 \<Longrightarrow> mates i \<noteq> []"
proof -
  have "\<forall>i<16. mates i \<noteq> []"
    unfolding all_lt16 by (simp add: mates_def upt_rec)
  then show "i < 16 \<Longrightarrow> mates i \<noteq> []" by blast
qed

lemma concat_concat_map: "concat (concat (map F xs)) = concat (map (\<lambda>x. concat (F x)) xs)"
  by (induction xs) simp_all

lemmas eval_simps = somes_intros those_somes concat_concat_map

lemma W_minus: "W - 1 = 13" "W - 2 = 12" "W - 3 = 11"
  by (simp_all add: W_def)

lemma c8_module: "constraint8 module_league = Some c8_form"
  unfolding constraint8_def c8_form_def T_module W_minus
  by (simp add: team_div_indices_module division_games_module mates_nonempty div_vars_def
      eval_simps cong: eval_cong)

lemma matches_module:
  "i < 16 \<Longrightarrow> j < 16 \<Longrightarrow> i \<noteq> j \<Longrightarrow> w < 14 \<Longrightarrow> matches module_league i j w = Some (i, j, w)"
  by (simp add: matches_def T_module W_def)

lemma c1_module: "constraint1 module_league = Some c1_form"
  unfolding constraint1_def c1_form_def T_module W_def
  by (simp add: matches_module eval_simps cong: eval_cong)

lemma c2_module: "constraint2 module_league = Some c2_form"
  unfolding constraint2_def c2_form_def T_module W_def G_def
  by (simp add: matches_module eval_simps cong: eval_cong)

lemma c3_module: "constraint3 module_league = Some c3_form"
  unfolding constraint3_def c3_form_def div_pairs_module W_def pair_vars_def module_div_pairs_eq
  by (simp add: matches_module eval_simps cong: eval_cong)

lemma c4_module: "constraint4 module_league = Some c4_form"
  unfolding constraint4_def c4_form_def opposite_indices_module W_def pair_vars_def
    module_opposite_pairs_def module_opposite_lists_def
  by (simp add: matches_module eval_simps cong: eval_cong)

lemma c4b_module: "constraint4b module_league = Some c4b_form"
  unfolding constraint4b_def c4b_form_def opposite_indices_module W_def module_opposite_lists_def
  by (simp add: matches_module eval_simps cong: eval_cong)

lemma c5_module: "constraint5 module_league = Some c5_form"
  unfolding constraint5_def c5_form_def T_module W_def
  by (simp add: matches_module eval_simps cong: eval_cong)

lemma c5b_module: "constraint5b module_league = Some c5b_form"
  unfolding constraint5b_def c5b_form_def div_pairs_module W_def module_div_pairs_eq
  by (simp add: matches_module eval_simps cong: eval_cong)

lemma c6_module: "constraint6 module_league = Some c6_form"
  unfolding constraint6_def c6_form_def rivals_module module_rival_pairs_def rivalry_week_def
  by (simp add: matches_module idx_module)

lemma c7_module: "constraint7 module_league = Some c7_form"
  unfolding constraint7_def c7_form_def div_pairs_module W_def module_div_pairs_eq separation_weeks_def
  by (simp add: matches_module eval_simps cong: eval_cong)

lemma div_vars_nonempty: "i < 16 \<Longrightarrow> ws \<noteq> [] \<Longrightarrow> div_vars i ws \<noteq> []"
  using mates_nonempty[of i] by (cases ws; cases "mates i") (simp_all add: div_vars_def)

lemma c9_module: "constraint9 module_league = Some c9_form"
proof -
  have ws: "\<forall>w\<in>set last_8_weeks. w < 14" "last_8_weeks \<noteq> []"
    by (simp_all add: last_8_weeks_def)
  have "\<And>i. i \<in> set [0..<16] \<Longrightarrow>
      Option.bind (team_div_indices module_league i) (\<lambda>opponents.
        Option.bind (division_games module_league i opponents last_8_weeks) (\<lambda>division_games_last_8.
          Some (if division_games_last_8 \<noteq> [] then [SumGe division_games_last_8 3] else [])))
      = Some [SumGe (div_vars i last_8_weeks) 3]"
    using ws by (simp add: team_div_indices_module division_games_module div_vars_nonempty)
  then have "those (map (\<lambda>i. Option.bind (team_div_indices module_league i) (\<lambda>opponents.
        Option.bind (division_games module_league i opponents last_8_weeks) (\<lambda>division_games_last_8.
          Some (if division_games_last_8 \<noteq> [] then [SumGe division_games_last_8 3] else [])))) [0..<16])
      = Some (map (\<lambda>i. [SumGe (div_vars i last_8_weeks) 3]) [0..<16])"
    by (rule those_map_Some)
  then show ?thesis
    unfolding constraint9_def c9_form_def T_module
    by (simp add: last_8_weeks_def)
qed

lemma others_bound: "j \<in> set (others i) \<Longrightarrow> j < 16 \<and> j \<noteq> i \<and> i \<noteq> j"
  by (auto simp: others_def)

lemma pair_vars_nonempty: "pair_vars i j \<noteq> []"
  by (simp add: pair_vars_def upt_rec)

lemma pair_games_module:
  assumes "i < 16" "j < 16" "i \<noteq> j"
  shows "map_option concat (those (map (\<lambda>w. Option.bind (guarded_match module_league i j w) (\<lambda>home.
           Option.bind (guarded_match module_league j i w) (\<lambda>away. Some (home @ away)))) [0..<14]))
         = Some (pair_vars i j)"
  using assms by (simp add: guarded_match_module pair_vars_def eval_simps cong: eval_cong)

lemma c10_module: "constraint10 module_league = Some c10_form"
proof -
  have inner: "those (map (\<lambda>j. Option.bind (map_option concat (those (map (\<lambda>w.
            Option.bind (guarded_match module_league i j w) (\<lambda>home.
            Option.bind (guarded_match module_league j i w) (\<lambda>away. Some (home @ away)))) [0..<W])))
          (\<lambda>total_games. Some (if total_games \<noteq> [] then [SumLe total_games 1] else []))) (others i))
        = Some (map (\<lambda>j. [SumLe (pair_vars i j) 1]) (others i))" if "i < 16" for i
    by (rule those_map_Some)
      (use that others_bound[of _ i] in \<open>simp add: W_def pair_games_module pair_vars_nonempty\<close>)
  have "those (map (\<lambda>i. Option.bind (non_division_teams module_league i) (\<lambda>non_division.
          map_option concat (those (map (\<lambda>j. Option.bind (map_option concat (those (map (\<lambda>w.
            Option.bind (guarded_match module_league i j w) (\<lambda>home.
            Option.bind (guarded_match module_league j i w) (\<lambda>away. Some (home @ away)))) [0..<W])))
          (\<lambda>total_games. Some (if total_games \<noteq> [] then [SumLe total_games 1] else []))) non_division))))
        [0..<16])
      = Some (map (\<lambda>i. map (\<lambda>j. SumLe (pair_vars i j) 1) (others i)) [0..<16])"
    by (rule those_map_Some) (simp add: non_division_teams_module inner)
  then show ?thesis
    unfolding constraint10_def c10_form_def T_module by simp
qed

lemma c11_module: "constraint11 module_league = Some c11_form"
proof -
  have inner: "those (map (\<lambda>j. Option.bind (guarded_match module_league i j final_week) (\<lambda>home.
            Option.bind (guarded_match module_league j i final_week) (\<lambda>away.
              Some (map (\<lambda>v. SumEq [v] 0) home @ map (\<lambda>v. SumEq [v] 0) away)))) (others i))
        = Some (map (\<lambda>j. [SumEq [(i, j, 13)] 0, SumEq [(j, i, 13)] 0]) (others i))" if "i < 16" for i
    by (rule those_map_Some)
      (use that others_bound[of _ i] in \<open>simp add: final_week_def W_def guarded_match_module\<close>)
  have "those (map (\<lambda>i. Option.bind (non_division_teams module_league i) (\<lambda>non_division.
          map_option concat (those (map (\<lambda>j. Option.bind (guarded_match module_league i j final_week) (\<lambda>home.
            Option.bind (guarded_match module_league j i final_week) (\<lambda>away.
              Some (map (\<lambda>v. SumEq [v] 0) home @ map (\<lambda>v. SumEq [v] 0) away)))) non_division))))
        [0..<16])
      = Some (map (\<lambda>i. concat (map (\<lambda>j. [SumEq [(i, j, 13)] 0, SumEq [(j, i, 13)] 0]) (others i))) [0..<16])"
    by (rule those_map_Some) (simp add: non_division_teams_module inner)
  then show ?thesis
    unfolding constraint11_def c11_form_def T_module by (simp add: concat_concat_map)
qed

lemma c12_module: "constraint12 module_league = Some c12_form"
  unfolding constraint12_def c12_form_def T_module W_minus
  by (simp add: matches_module eval_simps cong: eval_cong)

lemma build_model_module:
  "build_model module_league = Some (c1_form @ c2_form @ c3_form @ c4_form @ c4b_form @ c5_form @
     c5b_form @ c6_form @ c7_form @ c8_form @ c9_form @ c10_form @ c11_form @ c12_form)"
  by (simp add: build_model_def c1_module c2_module c3_module c4_module c4b_module c5_module
      c5b_module c6_module c7_module c8_module c9_module c10_module c11_module c12_module)

lemma satisfying_module:
  "satisfying module_league \<sigma> \<longleftrightarrow>
     list_all (holds \<sigma>) c1_form \<and> list_all (holds \<sigma>) c2_form \<and> list_all (holds \<sigma>) c3_form \<and>
     list_all (holds \<sigma>) c4_form \<and> list_all (holds \<sigma>) c4b_form \<and> list_all (holds \<sigma>) c5_form \<and>
     list_all (holds \<sigma>) c5b_form \<and> list_all (holds \<sigma>) c6_form \<and> list_all (holds \<sigma>) c7_form \<and>
     list_all (holds \<sigma>) c8_form \<and> list_all (holds \<sigma>) c9_form \<and> list_all (holds \<sigma>) c10_form \<and>
     list_all (holds \<sigma>) c11_form \<and> list_all (holds \<sigma>) c12_form"
  by (simp add: satisfying_def build_model_module)

lemma lin_sum_append: "lin_sum \<sigma> (xs @ ys) = lin_sum \<sigma> xs + lin_sum \<sigma> ys"
  by (simp add: lin_sum_def)

lemma lin_sum_concat: "lin_sum \<sigma> (concat xss) = sum_list (map (lin_sum \<sigma>) xss)"
  by (induction xss) (simp_all add: lin_sum_append, simp add: lin_sum_def)

lemma lin_sum_simps:
  "lin_sum \<sigma> [] = 0"
  "lin_sum \<sigma> (v # vs) = (if \<sigma> v then 1 else 0) + lin_sum \<sigma> vs"
  "lin_sum \<sigma> (xs @ ys) = lin_sum \<sigma> xs + lin_sum \<sigma> ys"
  "lin_sum \<sigma> (concat xss) = sum_list (map (lin_sum \<sigma>) xss)"
  by (simp_all add: lin_sum_append lin_sum_concat) (simp_all add: lin_sum_def)

lemma sum_list_upt0: "sum_list (map f [0..<n]) = (\<Sum>x<n. f x)"
  by (simp add: interv_sum_list_conv_sum_set_nat atLeast0LessThan)

lemma lin_sum_hosts:
  "lin_sum \<sigma> (if j \<noteq> i then [(i, j, w)] else []) = hosts \<sigma> i j w"
  "lin_sum \<sigma> (if i \<noteq> j then [(i, j, w)] else []) = hosts \<sigma> i j w"
  by (auto simp: lin_sum_def hosts_def)

lemma sat_one_game:
  assumes "satisfying module_league \<sigma>" "i < 16" "w < 14"
  shows "(\<Sum>j<16. hosts \<sigma> i j w) + (\<Sum>j<16. hosts \<sigma> j i w) = 1"
proof -
  have "list_all (holds \<sigma>) c1_form" using assms(1) by (simp add: satisfying_module)
  then show ?thesis using assms(2,3)
    by (simp add: c1_form_def list_all_iff lin_sum_simps comp_def lin_sum_hosts sum_list_upt0)
qed

lemma example_weeks:
  "example_schedule ! 0 = [(0, 1), (2, 3), (5, 4), (6, 7), (8, 9), (10, 11), (12, 13), (14, 15)]"
  "example_schedule ! Suc 0 = [(0, 4), (3, 7), (5, 1), (6, 2), (9, 13), (12, 8), (14, 10), (15, 11)]"
  "example_schedule ! 2 = [(0, 5), (1, 6), (2, 7), (4, 3), (9, 14), (10, 15), (11, 12), (13, 8)]"
  "example_schedule ! 3 = [(2, 0), (3, 1), (6, 4), (7, 5), (8, 10), (9, 11), (12, 14), (13, 15)]"
  "example_schedule ! 4 = [(4, 2), (5, 3), (6, 0), (7, 1), (8, 14), (10, 12), (11, 13), (15, 9)]"
  "example_schedule ! 5 = [(0, 3), (2, 1), (4, 7), (5, 6), (9, 10), (11, 8), (14, 13), (15, 12)]"
  "example_schedule ! 6 = [(1, 4), (2, 5), (3, 6), (7, 0), (8, 15), (12, 9), (13, 10), (14, 11)]"
  "example_schedule ! 7 = [(0, 9), (4, 12), (5, 13), (6, 14), (8, 3), (10, 1), (11, 2), (15, 7)]"
  "example_schedule ! 8 = [(1, 0), (3, 2), (4, 5), (7, 6), (9, 8), (11, 10), (13, 12), (15, 14)]"
  "example_schedule ! 9 = [(1, 13), (2, 10), (3, 11), (6, 8), (7, 9), (12, 0), (14, 5), (15, 4)]"
  "example_schedule ! 10 = [(0, 10), (5, 15), (8, 2), (9, 3), (11, 1), (12, 6), (13, 7), (14, 4)]"
  "example_schedule ! 11 = [(0, 2), (1, 3), (4, 6), (5, 7), (10, 8), (11, 9), (14, 12), (15, 13)]"
  "example_schedule ! 12 = [(1, 14), (2, 15), (3, 12), (4, 8), (7, 11), (9, 5), (10, 6), (13, 0)]"
  "example_schedule ! 13 = [(1, 2), (3, 0), (6, 5), (7, 4), (8, 11), (10, 9), (12, 15), (13, 14)]"
  by (simp_all add: example_schedule_def)

lemma example_length: "length example_schedule = 14"
  by (simp add: example_schedule_def)

lemma all_lt12: "(\<forall>w<12::nat. P w) = (P 0 \<and> P 1 \<and> P 2 \<and> P 3 \<and> P 4 \<and> P 5 \<and> P 6 \<and> P 7 \<and> P 8 \<and> P 9 \<and> P 10 \<and> P 11)"
  by (simp add: eval_nat_numeral All_less_Suc conj_ac)

lemma all_lt11: "(\<forall>w<11::nat. P w) = (P 0 \<and> P 1 \<and> P 2 \<and> P 3 \<and> P 4 \<and> P 5 \<and> P 6 \<and> P 7 \<and> P 8 \<and> P 9 \<and> P 10)"
  by (simp add: eval_nat_numeral All_less_Suc conj_ac)

lemma list_all_upt0:
  "list_all P (concat (map f [0..<n])) = (\<forall>x<n. list_all P (f x))"
  "list_all P (map g [0..<n]) = (\<forall>x<n. P (g x))"
  by (auto simp: list_all_iff)

lemma list_all_split:
  "list_all P (concat (map f (x # xs))) = (list_all P (f x) \<and> list_all P (concat (map f xs)))"
  "list_all P (concat (map f [])) = True"
  "list_all P (map g (y # ys)) = (P (g y) \<and> list_all P (map g ys))"
  "list_all P (map g []) = True"
  "list_all P (us @ vs) = (list_all P us \<and> list_all P vs)"
  "list_all P (u # us) = (P u \<and> list_all P us)"
  "list_all P [] = True"
  by simp_all

lemmas split_rules = list_all_upt0 list_all_split all_lt16 all_lt14 all_lt12 all_lt11 split_conv
  HOL.simp_thms

lemma upt14: "[0..<14] = [0,1,2,3,4,5,6,7,8,9,10,11,12,13::nat]"
  by (simp add: upt_rec)

lemma module_opposite_pairs_eq: "module_opposite_pairs =
  [(0, 4), (0, 5), (0, 6), (0, 7), (1, 4), (1, 5), (1, 6), (1, 7),
   (2, 4), (2, 5), (2, 6), (2, 7), (3, 4), (3, 5), (3, 6), (3, 7),
   (8, 12), (8, 13), (8, 14), (8, 15), (9, 12), (9, 13), (9, 14), (9, 15),
   (10, 12), (10, 13), (10, 14), (10, 15), (11, 12), (11, 13), (11, 14), (11, 15)]"
  by (simp add: module_opposite_pairs_def module_opposite_lists_def)

lemmas example_eval = lin_sum_def example_value_def example_weeks example_length upt16 upt14
  numeral_2_eq_2[symmetric] upt_rec pair_vars_def div_vars_def mates_def others_def

lemma ex_c1: "list_all (holds example_value) c1_form"
  unfolding c1_form_def
  apply (simp only: split_rules)
  apply (intro conjI)
  apply (simp_all add: example_eval)
  done

lemma ex_c2: "list_all (holds example_value) c2_form"
  unfolding c2_form_def
  apply (simp only: split_rules)
  apply (intro conjI)
  apply (simp_all add: example_eval)
  done

lemma ex_c3: "list_all (holds example_value) c3_form"
  unfolding c3_form_def module_div_pairs_eq
  apply (simp only: split_rules)
  apply (intro conjI)
  apply (simp_all add: example_eval)
  done

lemma ex_c4: "list_all (holds example_value) c4_form"
  unfolding c4_form_def module_opposite_pairs_eq
  apply (simp only: split_rules)
  apply (intro conjI)
  apply (simp_all add: example_eval)
  done

lemma ex_c4b: "list_all (holds example_value) c4b_form"
  unfolding c4b_form_def module_opposite_lists_def
  apply (simp only: split_rules)
  apply (intro conjI)
  apply (simp_all add: example_eval)
  done

lemma ex_c5: "list_all (holds example_value) c5_form"
  unfolding c5_form_def
  apply (simp only: split_rules)
  apply (intro conjI)
  apply (simp_all add: example_eval)
  done

lemma ex_c5b: "list_all (holds example_value) c5b_form"
  unfolding c5b_form_def module_div_pairs_eq
  apply (simp only: split_rules)
  apply (intro conjI)
  apply (simp_all add: example_eval)
  done

lemma ex_c6: "list_all (holds example_value) c6_form"
  unfolding c6_form_def module_rival_pairs_def
  apply (simp only: split_rules)
  apply (intro conjI)
  apply (simp_all add: example_eval)
  done

lemma ex_c7: "list_all (holds example_value) c7_form"
  unfolding c7_form_def module_div_pairs_eq
  apply (simp only: split_rules)
  apply (intro conjI)
  apply (simp_all add: example_eval)
  done

lemma ex_c8: "list_all (holds example_value) c8_form"
  unfolding c8_form_def
  apply (simp only: split_rules)
  apply (intro conjI)
  apply (simp_all add: example_eval)
  done

lemma ex_c9: "list_all (holds example_value) c9_form"
  unfolding c9_form_def
  apply (simp only: split_rules)
  apply (intro conjI)
  apply (simp_all add: example_eval)
  done

lemma ex_c10: "list_all (holds example_value) c10_form"
  unfolding c10_form_def
  apply (simp only: split_rules)
  apply (intro conjI)
  apply (simp_all add: example_eval)
  done

lemma ex_c11: "list_all (holds example_value) c11_form"
  unfolding c11_form_def
  apply (simp only: split_rules concat_concat_map)
  apply (intro conjI)
  apply (simp_all add: example_eval)
  done

lemma ex_c12: "list_all (holds example_value) c12_form"
  unfolding c12_form_def
  apply (simp only: split_rules)
  apply (intro conjI)
  apply (simp_all add: example_eval)
  done

lemma example_satisfying: "satisfying module_league example_value"
  by (simp add: satisfying_module ex_c1 ex_c2 ex_c3 ex_c4 ex_c4b ex_c5 ex_c5b ex_c6 ex_c7 ex_c8
      ex_c9 ex_c10 ex_c11 ex_c12)

lemma rivals_index: "rivals module_league = map (\<lambda>(a, b). (team_name a, team_name b)) module_rival_pairs"
  by (simp add: rivals_module module_rival_pairs_def team_name_def teams_module)

lemma rival_pairs_bound: "(a, b) \<in> set module_rival_pairs \<Longrightarrow> a < 16 \<and> b < 16"
  by (auto simp: module_rival_pairs_def)

lemma rival_test_module:
  assumes "i < 16" "j < 16"
  shows "list_ex (\<lambda>rival. (team_name i, team_name j) = rival \<or> (team_name j, team_name i) = rival)
           (rivals module_league) \<longleftrightarrow> is_rival i j"
proof -
  have "list_ex (\<lambda>rival. (team_name i, team_name j) = rival \<or> (team_name j, team_name i) = rival)
           (rivals module_league)
        \<longleftrightarrow> (\<exists>p\<in>set module_rival_pairs.
              (team_name i = team_name (fst p) \<and> team_name j = team_name (snd p)) \<or>
              (team_name j = team_name (fst p) \<and> team_name i = team_name (snd p)))"
    by (simp add: rivals_index list_ex_iff split_def)
  also have "\<dots> \<longleftrightarrow> (\<exists>p\<in>set module_rival_pairs. (i = fst p \<and> j = snd p) \<or> (j = fst p \<and> i = snd p))"
  proof (intro bex_cong refl)
    fix p assume "p \<in> set module_rival_pairs"
    then have "fst p < 16" "snd p < 16"
      using rival_pairs_bound[of "fst p" "snd p"] by simp_all
    then show "(team_name i = team_name (fst p) \<and> team_name j = team_name (snd p)) \<or>
               (team_name j = team_name (fst p) \<and> team_name i = team_name (snd p))
           \<longleftrightarrow> (i = fst p \<and> j = snd p) \<or> (j = fst p \<and> i = snd p)"
      using assms by (simp add: team_name_inj)
  qed
  also have "\<dots> \<longleftrightarrow> is_rival i j"
    unfolding is_rival_def by force
  finally show ?thesis .
qed

lemma opposite_index_lt: "d < 4 \<Longrightarrow> opposite_index d < 4"
proof -
  have "\<forall>d<4. opposite_index d < 4"
    unfolding all_lt4 by (simp add: opposite_index_def)
  then show "d < 4 \<Longrightarrow> opposite_index d < 4" by blast
qed

lemma game_type_module:
  assumes "i < 16" "j < 16"
  shows "game_type module_league w (team_name i) (team_name j) = Some (type_of w i j)"
proof -
  have d: "i div 4 < 4" "j div 4 < 4" "opposite_index (i div 4) < 4"
    using assms by (simp_all add: opposite_index_lt)
  show ?thesis
    using assms d
    by (simp add: game_type_def div_of_lookup opposite_lookup division_name_inj rival_test_module
        type_of_def)
qed

lemma map_of_keyed:
  "inj_on k (set xs) \<Longrightarrow> i \<in> set xs \<Longrightarrow> map_of (map (\<lambda>t. (k t, f t)) xs) (k i) = Some (f i)"
  by (induction xs) (auto simp: inj_on_def)

lemma update_keyed:
  "inj_on k (set xs) \<Longrightarrow> distinct xs \<Longrightarrow> i \<in> set xs \<Longrightarrow>
   AList.update (k i) v (map (\<lambda>t. (k t, f t)) xs) = map (\<lambda>t. (k t, if t = i then v else f t)) xs"
proof (induction xs)
  case Nil
  then show ?case by simp
next
  case (Cons x xs)
  show ?case
  proof (cases "x = i")
    case True
    then have "i \<notin> set xs" using Cons.prems by simp
    then have "map (\<lambda>t. (k t, if t = i then v else f t)) xs = map (\<lambda>t. (k t, f t)) xs"
      by (induction xs) auto
    then show ?thesis using True by simp
  next
    case False
    then have "k x \<noteq> k i" using Cons.prems by (auto simp: inj_on_def)
    moreover have "i \<in> set xs" using False Cons.prems by simp
    moreover have "inj_on k (set xs)" "distinct xs" using Cons.prems by (simp_all add: inj_on_def)
    ultimately show ?thesis using False Cons.IH by simp
  qed
qed

lemma team_name_inj_on: "inj_on team_name (set [0..<16])"
  by (auto simp: inj_on_def team_name_inj)

lemma append_game_module:
  assumes "i < 16"
  shows "append_game (map (\<lambda>t. (team_name t, f t)) [0..<16]) (team_name i) g
         = Some (map (\<lambda>t. (team_name t, f t @ (if t = i then [g] else []))) [0..<16])"
proof -
  have i: "i \<in> set [0..<16]" using assms by simp
  have "map (\<lambda>t. (team_name t, if t = i then f i @ [g] else f t)) [0..<16]
        = map (\<lambda>t. (team_name t, f t @ (if t = i then [g] else []))) [0..<16]"
    by simp
  then show ?thesis
    unfolding append_game_def
    by (simp only: map_of_keyed[OF team_name_inj_on i] update_keyed[OF team_name_inj_on distinct_upt i]
        Option.bind.simps)
qed

lemma record_game_module:
  assumes "i < 16" "j < 16"
  shows "record_game module_league w i j (g, map (\<lambda>t. (team_name t, f t)) [0..<16])
         = Some (g @ [game_of w i j],
                 map (\<lambda>t. (team_name t, f t @ (if i = t then [home_entry w i j] else []) @
                                               (if j = t then [away_entry w i j] else []))) [0..<16])"
  using assms
  by (simp add: record_game_def idx_to_team_lookup game_type_module append_game_module
      game_of_def home_entry_def away_entry_def eq_commute)

lemma games_of_Cons:
  "games_of \<sigma> ((w, i, j) # xs)
   = (if i \<noteq> j \<and> \<sigma> (i, j, w) then [game_of w i j] else []) @ games_of \<sigma> xs"
  by (simp add: games_of_def)

lemma entries_of_Cons:
  "entries_of \<sigma> t ((w, i, j) # xs)
   = (if i \<noteq> j \<and> \<sigma> (i, j, w)
      then (if i = t then [home_entry w i j] else []) @ (if j = t then [away_entry w i j] else [])
      else []) @ entries_of \<sigma> t xs"
  by (simp add: entries_of_def)

lemma extract_step_module:
  assumes "i < 16" "j < 16"
  shows "extract_step module_league \<sigma> (w, i, j) (g, map (\<lambda>t. (team_name t, f t)) [0..<16])
         = Some (g @ (if i \<noteq> j \<and> \<sigma> (i, j, w) then [game_of w i j] else []),
                 map (\<lambda>t. (team_name t, f t @
                   (if i \<noteq> j \<and> \<sigma> (i, j, w)
                    then (if i = t then [home_entry w i j] else []) @
                         (if j = t then [away_entry w i j] else [])
                    else []))) [0..<16])"
  using assms by (simp add: extract_step_def record_game_module)

lemma for_each_extract:
  assumes "\<forall>(w, i, j)\<in>set xs. i < 16 \<and> j < 16"
  shows "for_each (extract_step module_league \<sigma>) xs (g, map (\<lambda>t. (team_name t, f t)) [0..<16])
         = Some (g @ games_of \<sigma> xs, map (\<lambda>t. (team_name t, f t @ entries_of \<sigma> t xs)) [0..<16])"
  using assms
proof (induction xs arbitrary: g f)
  case Nil
  then show ?case by (simp add: games_of_def entries_of_def)
next
  case (Cons x xs)
  obtain w i j where x: "x = (w, i, j)" by (cases x) auto
  have b: "i < 16" "j < 16" and rest: "\<forall>(w, i, j)\<in>set xs. i < 16 \<and> j < 16"
    using Cons.prems x by auto
  define A where "A = (if i \<noteq> j \<and> \<sigma> (i, j, w) then [game_of w i j] else [])"
  define B where "B = (\<lambda>t. if i \<noteq> j \<and> \<sigma> (i, j, w)
                    then (if i = t then [home_entry w i j] else []) @
                         (if j = t then [away_entry w i j] else [])
                    else [])"
  have "for_each (extract_step module_league \<sigma>) (x # xs) (g, map (\<lambda>t. (team_name t, f t)) [0..<16])
        = for_each (extract_step module_league \<sigma>) xs
            (g @ A, map (\<lambda>t. (team_name t, f t @ B t)) [0..<16])"
    unfolding x A_def B_def by (simp only: for_each.simps extract_step_module[OF b] option.case)
  also have "\<dots> = Some ((g @ A) @ games_of \<sigma> xs,
                       map (\<lambda>t. (team_name t, (f t @ B t) @ entries_of \<sigma> t xs)) [0..<16])"
    by (rule Cons.IH[OF rest])
  also have "\<dots> = Some (g @ games_of \<sigma> (x # xs),
                       map (\<lambda>t. (team_name t, f t @ entries_of \<sigma> t (x # xs))) [0..<16])"
    unfolding x A_def B_def by (simp only: games_of_Cons entries_of_Cons append_assoc)
  finally show ?case .
qed

lemma initial_schedules:
  "dict_of [(team, []). team \<leftarrow> teams module_league] = map (\<lambda>t. (team_name t, [])) [0..<16]"
  by (simp add: teams_module dict_of_def upt16 team_name_def)

lemma loop_order_bound: "\<forall>(w, i, j)\<in>set loop_order. i < 16 \<and> j < 16"
  by (auto simp: loop_order_def)

lemma extract_module:
  "extract_schedule module_league \<sigma> = Some (games_of \<sigma> loop_order, schedules_of \<sigma>)"
proof -
  have "[(w, i, j). w \<leftarrow> [0..<W], i \<leftarrow> [0..<T module_league], j \<leftarrow> [0..<T module_league]] = loop_order"
    by (simp add: loop_order_def W_def T_module)
  then show ?thesis
    unfolding extract_schedule_def initial_schedules
    using for_each_extract[OF loop_order_bound, of \<sigma> "[]" "\<lambda>t. []"]
    by (simp add: schedules_of_def)
qed

lemma sum_list_upt: "sum_list (map f [m..<n]) = (\<Sum>x = m..<n. f x)"
  by (simp add: interv_sum_list_conv_sum_set_nat)

lemma length_filter_concat_map:
  "length (filter P (concat (map F xs))) = sum_list (map (\<lambda>x. length (filter P (F x))) xs)"
  by (induction xs) simp_all

lemma concat_map_concat_map:
  "concat (map F (concat (map H xs))) = concat (map (\<lambda>x. concat (map F (H x))) xs)"
  by (induction xs) simp_all

lemma entries_of_loop:
  "entries_of \<sigma> t loop_order =
     concat (map (\<lambda>w. concat (map (\<lambda>i. concat (map (\<lambda>j.
       if i \<noteq> j \<and> \<sigma> (i, j, w)
       then (if i = t then [home_entry w i j] else []) @ (if j = t then [away_entry w i j] else [])
       else []) [0..<16])) [0..<16])) [0..<14])"
  by (simp add: entries_of_def loop_order_def concat_map_concat_map comp_def)

lemma games_of_loop:
  "games_of \<sigma> loop_order =
     concat (map (\<lambda>w. concat (map (\<lambda>i. concat (map (\<lambda>j.
       if i \<noteq> j \<and> \<sigma> (i, j, w) then [game_of w i j] else []) [0..<16])) [0..<16])) [0..<14])"
  by (simp add: games_of_def loop_order_def concat_map_concat_map comp_def)

lemma count_games:
  "length (filter P (games_of \<sigma> loop_order))
   = (\<Sum>w<14. \<Sum>i<16. \<Sum>j<16. if P (game_of w i j) then hosts \<sigma> i j w else 0)"
  unfolding games_of_loop
  by (simp add: length_filter_concat_map sum_list_upt0 hosts_def) (auto intro!: sum.cong simp: hosts_def)

lemma count_entries:
  assumes "t < 16"
  shows "length (filter P (entries_of \<sigma> t loop_order))
   = (\<Sum>w<14. \<Sum>j<16. (if P (home_entry w t j) then hosts \<sigma> t j w else 0) +
                          (if P (away_entry w j t) then hosts \<sigma> j t w else 0))"
proof -
  have "length (filter P (entries_of \<sigma> t loop_order))
      = (\<Sum>w<14. \<Sum>i<16. \<Sum>j<16.
           (if i = t \<and> P (home_entry w i j) then hosts \<sigma> i j w else 0) +
           (if j = t \<and> P (away_entry w i j) then hosts \<sigma> i j w else 0))"
    unfolding entries_of_loop
    by (simp add: length_filter_concat_map sum_list_upt0 hosts_def) (auto intro!: sum.cong simp: hosts_def)
  also have "\<dots> = (\<Sum>w<14. (\<Sum>i<16. \<Sum>j<16. if i = t \<and> P (home_entry w i j) then hosts \<sigma> i j w else 0) +
                          (\<Sum>i<16. \<Sum>j<16. if j = t \<and> P (away_entry w i j) then hosts \<sigma> i j w else 0))"
    by (simp add: sum.distrib)
  also have "\<dots> = (\<Sum>w<14. (\<Sum>j<16. if P (home_entry w t j) then hosts \<sigma> t j w else 0) +
                          (\<Sum>i<16. if P (away_entry w i t) then hosts \<sigma> i t w else 0))"
  proof -
    have h: "(\<Sum>i<16. \<Sum>j<16. if i = t \<and> P (home_entry w i j) then hosts \<sigma> i j w else 0)
        = (\<Sum>j<16. if P (home_entry w t j) then hosts \<sigma> t j w else 0)" for w
    proof -
      have "(\<Sum>i<16. \<Sum>j<16. if i = t \<and> P (home_entry w i j) then hosts \<sigma> i j w else 0)
          = (\<Sum>i<16. if i = t then (\<Sum>j<16. if P (home_entry w t j) then hosts \<sigma> t j w else 0) else 0)"
        by (intro sum.cong refl) auto
      then show ?thesis using assms by simp
    qed
    have a: "(\<Sum>i<16. \<Sum>j<16. if j = t \<and> P (away_entry w i j) then hosts \<sigma> i j w else 0)
        = (\<Sum>i<16. if P (away_entry w i t) then hosts \<sigma> i t w else 0)" for w
    proof (intro sum.cong refl)
      fix i
      have "(\<Sum>j<16. if j = t \<and> P (away_entry w i j) then hosts \<sigma> i j w else 0)
          = (\<Sum>j<16. if j = t then (if P (away_entry w i t) then hosts \<sigma> i t w else 0) else 0)"
        by (intro sum.cong refl) auto
      then show "(\<Sum>j<16. if j = t \<and> P (away_entry w i j) then hosts \<sigma> i j w else 0)
          = (if P (away_entry w i t) then hosts \<sigma> i t w else 0)"
        using assms by simp
    qed
    show ?thesis by (simp only: h a)
  qed
  finally show ?thesis by (simp add: sum.distrib)
qed

lemma hosts_fold: "i \<noteq> j \<Longrightarrow> (if \<sigma> (i, j, w) then 1 else 0) = hosts \<sigma> i j w"
  by (simp add: hosts_def)

lemma lin_sum_map: "lin_sum \<sigma> (map f xs) = sum_list (map (\<lambda>x. if \<sigma> (f x) then 1 else 0) xs)"
  by (simp add: lin_sum_def comp_def)

lemmas sem_simps = list_all_iff lin_sum_simps lin_sum_map comp_def lin_sum_hosts sum_list_upt0
  hosts_fold

lemma div_pairs_bound:
  "(i, j) \<in> set module_div_pairs \<Longrightarrow> i < j \<and> j < 16 \<and> i div 4 = j div 4"
  by (auto simp: module_div_pairs_eq)

lemma opposite_pairs_bound:
  "(i, j) \<in> set module_opposite_pairs \<Longrightarrow> i < 16 \<and> j < 16 \<and> i \<noteq> j \<and> j div 4 = opposite_index (i div 4)"
  by (auto simp: module_opposite_pairs_eq opposite_index_def)

lemma sat_games_per_week:
  assumes "satisfying module_league \<sigma>" "w < 14"
  shows "(\<Sum>i<16. \<Sum>j<16. hosts \<sigma> i j w) = 8"
proof -
  have "list_all (holds \<sigma>) c2_form" using assms(1) by (simp add: satisfying_module)
  then show ?thesis using assms(2)
    by (simp add: c2_form_def sem_simps)
qed

lemma sat_division_twice:
  assumes "satisfying module_league \<sigma>" "(i, j) \<in> set module_div_pairs"
  shows "(\<Sum>w<14. hosts \<sigma> i j w + hosts \<sigma> j i w) = 2"
proof -
  have "list_all (holds \<sigma>) c3_form" using assms(1) by (simp add: satisfying_module)
  moreover have "i \<noteq> j" "j \<noteq> i" using div_pairs_bound[OF assms(2)] by auto
  ultimately show ?thesis using assms(2)
    by (auto simp: c3_form_def pair_vars_def sem_simps)
qed

lemma sat_opposite_once:
  assumes "satisfying module_league \<sigma>" "(i, j) \<in> set module_opposite_pairs"
  shows "(\<Sum>w<14. hosts \<sigma> i j w + hosts \<sigma> j i w) = 1"
proof -
  have "list_all (holds \<sigma>) c4_form" using assms(1) by (simp add: satisfying_module)
  moreover have "i \<noteq> j" "j \<noteq> i" using opposite_pairs_bound[OF assms(2)] by auto
  ultimately show ?thesis using assms(2)
    by (auto simp: c4_form_def pair_vars_def sem_simps)
qed

lemma sat_home_away:
  assumes "satisfying module_league \<sigma>" "i < 16"
  shows "(\<Sum>w<14. \<Sum>j<16. hosts \<sigma> i j w) = 7" "(\<Sum>w<14. \<Sum>j<16. hosts \<sigma> j i w) = 7"
proof -
  have "list_all (holds \<sigma>) c5_form" using assms(1) by (simp add: satisfying_module)
  then show "(\<Sum>w<14. \<Sum>j<16. hosts \<sigma> i j w) = 7" "(\<Sum>w<14. \<Sum>j<16. hosts \<sigma> j i w) = 7"
    using assms(2) by (simp_all add: c5_form_def sem_simps)
qed

lemma sat_division_home_once:
  assumes "satisfying module_league \<sigma>" "(i, j) \<in> set module_div_pairs"
  shows "(\<Sum>w<14. hosts \<sigma> i j w) = 1" "(\<Sum>w<14. hosts \<sigma> j i w) = 1"
proof -
  have "list_all (holds \<sigma>) c5b_form" using assms(1) by (simp add: satisfying_module)
  moreover have "i \<noteq> j" "j \<noteq> i" using div_pairs_bound[OF assms(2)] by auto
  ultimately show "(\<Sum>w<14. hosts \<sigma> i j w) = 1" "(\<Sum>w<14. hosts \<sigma> j i w) = 1"
    using assms(2) by (auto simp: c5b_form_def sem_simps)
qed

lemma sat_rivalry_week:
  assumes "satisfying module_league \<sigma>" "(a, b) \<in> set module_rival_pairs"
  shows "hosts \<sigma> a b 9 + hosts \<sigma> b a 9 = 1"
proof -
  have "list_all (holds \<sigma>) c6_form" using assms(1) by (simp add: satisfying_module)
  moreover have "a \<noteq> b" "b \<noteq> a" using assms(2) by (auto simp: module_rival_pairs_def)
  ultimately show ?thesis using assms(2)
    by (auto simp: c6_form_def sem_simps)
qed

lemma sat_density_cap:
  assumes "satisfying module_league \<sigma>" "i < 16" "w1 < 12"
  shows "(\<Sum>w\<leftarrow>[w1, w1 + 1, w1 + 2]. \<Sum>j\<leftarrow>mates i. hosts \<sigma> i j w + hosts \<sigma> j i w) \<le> 2"
proof -
  have "list_all (holds \<sigma>) c8_form" using assms(1) by (simp add: satisfying_module)
  then have "lin_sum \<sigma> (div_vars i [w1, w1 + 1, w1 + 2]) \<le> 2"
    using assms(2,3) by (auto simp: c8_form_def list_all_iff)
  moreover have "\<forall>j\<in>set (mates i). i \<noteq> j \<and> j \<noteq> i" by (auto simp: mates_def)
  ultimately show ?thesis
    by (simp add: div_vars_def lin_sum_simps comp_def hosts_fold cong: map_cong)
qed

lemma sat_non_division_once:
  assumes "satisfying module_league \<sigma>" "i < 16" "j \<in> set (others i)"
  shows "(\<Sum>w<14. hosts \<sigma> i j w + hosts \<sigma> j i w) \<le> 1"
proof -
  have "list_all (holds \<sigma>) c10_form" using assms(1) by (simp add: satisfying_module)
  then have "lin_sum \<sigma> (pair_vars i j) \<le> 1"
    using assms(2,3) by (auto simp: c10_form_def list_all_iff)
  moreover have "i \<noteq> j" "j \<noteq> i" using others_bound[OF assms(3)] by auto
  ultimately show ?thesis
    by (simp add: pair_vars_def sem_simps)
qed

lemma sat_final_week:
  assumes "satisfying module_league \<sigma>" "i < 16" "j \<in> set (others i)"
  shows "hosts \<sigma> i j 13 = 0" "hosts \<sigma> j i 13 = 0"
proof -
  have "list_all (holds \<sigma>) c11_form" using assms(1) by (simp add: satisfying_module)
  then have "lin_sum \<sigma> [(i, j, 13)] = 0 \<and> lin_sum \<sigma> [(j, i, 13)] = 0"
    using assms(2,3) by (auto simp: c11_form_def list_all_iff)
  moreover have "i \<noteq> j" "j \<noteq> i" using others_bound[OF assms(3)] by auto
  ultimately show "hosts \<sigma> i j 13 = 0" "hosts \<sigma> j i 13 = 0"
    by (simp_all add: lin_sum_simps hosts_def)
qed

lemma list_all_concat_map: "list_all P (concat (map f xs)) \<longleftrightarrow> (\<forall>x\<in>set xs. list_all P (f x))"
  by (auto simp: list_all_iff)

lemma list_all_map: "list_all P (map g xs) \<longleftrightarrow> (\<forall>x\<in>set xs. P (g x))"
  by (auto simp: list_all_iff)

lemma sat_separation:
  assumes "satisfying module_league \<sigma>" "(i, j) \<in> set module_div_pairs"
    "w1 < w2" "w2 < w1 + 3" "w2 < 14"
  shows "hosts \<sigma> i j w1 + hosts \<sigma> j i w1 + hosts \<sigma> i j w2 + hosts \<sigma> j i w2 \<le> 1"
proof -
  have "list_all (holds \<sigma>) c7_form" using assms(1) by (simp add: satisfying_module)
  then have "\<forall>p\<in>set module_div_pairs. \<forall>w1\<in>set [0..<14]. \<forall>w2\<in>set [w1 + 1..<min (w1 + 3) 14].
      holds \<sigma> (SumLe [(fst p, snd p, w1), (snd p, fst p, w1), (fst p, snd p, w2), (snd p, fst p, w2)] 1)"
    unfolding c7_form_def by (simp only: list_all_concat_map list_all_map split_def)
  moreover have "w1 \<in> set [0..<14]" "w2 \<in> set [w1 + 1..<min (w1 + 3) 14]" using assms(3-5) by auto
  ultimately have "holds \<sigma> (SumLe [(i, j, w1), (j, i, w1), (i, j, w2), (j, i, w2)] 1)"
    using assms(2) by fastforce
  moreover have "i \<noteq> j" "j \<noteq> i" using div_pairs_bound[OF assms(2)] by auto
  ultimately show ?thesis
    by (simp add: lin_sum_simps hosts_def)
qed

lemma sat_density_floor:
  assumes "satisfying module_league \<sigma>" "i < 16"
  shows "(\<Sum>w\<leftarrow>[6..<14]. \<Sum>j\<leftarrow>mates i. hosts \<sigma> i j w + hosts \<sigma> j i w) \<ge> 3"
proof -
  have "list_all (holds \<sigma>) c9_form" using assms(1) by (simp add: satisfying_module)
  then have "lin_sum \<sigma> (div_vars i [6..<14]) \<ge> 3"
    using assms(2) by (auto simp: c9_form_def list_all_iff)
  moreover have "\<forall>j\<in>set (mates i). i \<noteq> j \<and> j \<noteq> i" by (auto simp: mates_def)
  ultimately show ?thesis
    by (simp add: div_vars_def lin_sum_simps comp_def hosts_fold cong: map_cong)
qed

lemma teams_names: "teams module_league = map team_name [0..<16]"
  by (simp add: teams_module team_name_def upt16)

lemma team_cases:
  assumes "team \<in> set (teams module_league)"
  obtains t where "t < 16" "team = team_name t"
  using assms by (auto simp: teams_names)

lemma schedule_lookup:
  "t < 16 \<Longrightarrow> map_of (schedules_of \<sigma>) (team_name t) = Some (entries_of \<sigma> t loop_order)"
  unfolding schedules_of_def
  using map_of_keyed[OF team_name_inj_on, of t "\<lambda>t. entries_of \<sigma> t loop_order"] by simp

lemma sum_week_delta:
  assumes "1 \<le> week" "week \<le> 14"
  shows "(\<Sum>w<14. if w + 1 = week then F w else 0) = (F (week - 1 :: nat) :: nat)"
proof -
  have "(\<Sum>w<14. if w + 1 = week then F w else 0) = (\<Sum>w<14. if w = week - 1 then F w else 0)"
    using assms by (intro sum.cong refl) auto
  then show ?thesis using assms by auto
qed

lemma entry_simps:
  "t_Week (home_entry w i j) = w + 1" "t_Week (away_entry w i j) = w + 1"
  "Venue (home_entry w i j) = ''Home''" "Venue (away_entry w i j) = ''Away''"
  "Opponent (home_entry w i j) = team_name j" "Opponent (away_entry w i j) = team_name i"
  "t_Type (home_entry w i j) = type_of w i j" "t_Type (away_entry w i j) = type_of w i j"
  "Week (game_of w i j) = w + 1" "Home (game_of w i j) = team_name i"
  "Away (game_of w i j) = team_name j" "Type (game_of w i j) = type_of w i j"
  by (simp_all add: home_entry_def away_entry_def game_of_def)

lemma games_in_week:
  assumes "satisfying module_league \<sigma>" "1 \<le> week" "week \<le> 14"
  shows "length [g \<leftarrow> games_of \<sigma> loop_order. Week g = week] = 8"
proof -
  have "length [g \<leftarrow> games_of \<sigma> loop_order. Week g = week]
      = (\<Sum>w<14. if w + 1 = week then (\<Sum>i<16. \<Sum>j<16. hosts \<sigma> i j w) else 0)"
    by (simp add: count_games entry_simps) (auto intro!: sum.cong)
  also have "\<dots> = (\<Sum>i<16. \<Sum>j<16. hosts \<sigma> i j (week - 1))"
    using assms(2,3) by (rule sum_week_delta)
  also have "\<dots> = 8"
    using assms by (intro sat_games_per_week) auto
  finally show ?thesis .
qed

lemma team_games_in_week:
  assumes "satisfying module_league \<sigma>" "t < 16" "1 \<le> week" "week \<le> 14"
  shows "length [g \<leftarrow> entries_of \<sigma> t loop_order. t_Week g = week] = 1"
proof -
  have "length [g \<leftarrow> entries_of \<sigma> t loop_order. t_Week g = week]
      = (\<Sum>w<14. if w + 1 = week then (\<Sum>j<16. hosts \<sigma> t j w) + (\<Sum>j<16. hosts \<sigma> j t w) else 0)"
    using assms(2) by (simp add: count_entries entry_simps) (intro sum.cong refl, simp add: sum.distrib)
  also have "\<dots> = (\<Sum>j<16. hosts \<sigma> t j (week - 1)) + (\<Sum>j<16. hosts \<sigma> j t (week - 1))"
    using assms(3,4) by (rule sum_week_delta)
  also have "\<dots> = 1"
    using assms by (intro sat_one_game) auto
  finally show ?thesis .
qed

lemma team_games_total:
  assumes "satisfying module_league \<sigma>" "t < 16"
  shows "length (entries_of \<sigma> t loop_order) = 14"
proof -
  have "length (entries_of \<sigma> t loop_order) = length (filter (\<lambda>g. True) (entries_of \<sigma> t loop_order))"
    by simp
  also have "\<dots> = (\<Sum>w<14. (\<Sum>j<16. hosts \<sigma> t j w) + (\<Sum>j<16. hosts \<sigma> j t w))"
    using assms(2) by (simp only: count_entries if_True sum.distrib)
  also have "\<dots> = (\<Sum>w<14::nat. 1::nat)"
    using assms by (intro sum.cong refl sat_one_game) auto
  finally show ?thesis by simp
qed

lemma team_home_away:
  assumes "satisfying module_league \<sigma>" "t < 16"
  shows "length [g \<leftarrow> entries_of \<sigma> t loop_order. Venue g = ''Home''] = 7"
    "length [g \<leftarrow> entries_of \<sigma> t loop_order. Venue g = ''Away''] = 7"
  using assms by (simp_all add: count_entries entry_simps sat_home_away)

text \<open>
  C5. For every satisfying assignment of the model of the module's league, the
  extraction succeeds and in the extracted schedule every week from 1 to \<open>W\<close> has exactly
  \<open>G = 8\<close> games, and every team has exactly one game in each week, \<open>W = 14\<close> games in
  all, exactly 7 of them at home and exactly 7 away.
\<close>

theorem one_game_per_week_and_home_away_balance:
  assumes "satisfying module_league \<sigma>"
  shows "\<exists>games_by_week team_schedules.
           extract_schedule module_league \<sigma> = Some (games_by_week, team_schedules) \<and>
           (\<forall>week\<in>{1..W}. length [g \<leftarrow> games_by_week. Week g = week] = G) \<and>
           (\<forall>team\<in>set (teams module_league). \<exists>sched.
              map_of team_schedules team = Some sched \<and>
              (\<forall>week\<in>{1..W}. length [g \<leftarrow> sched. t_Week g = week] = 1) \<and>
              length sched = W \<and>
              length [g \<leftarrow> sched. Venue g = ''Home''] = 7 \<and>
              length [g \<leftarrow> sched. Venue g = ''Away''] = 7)"
proof -
  have games: "\<forall>week\<in>{1..W}. length [g \<leftarrow> games_of \<sigma> loop_order. Week g = week] = G"
    using games_in_week[OF assms] by (simp add: W_def G_def)
  have "\<exists>sched. map_of (schedules_of \<sigma>) team = Some sched \<and>
              (\<forall>week\<in>{1..W}. length [g \<leftarrow> sched. t_Week g = week] = 1) \<and>
              length sched = W \<and>
              length [g \<leftarrow> sched. Venue g = ''Home''] = 7 \<and>
              length [g \<leftarrow> sched. Venue g = ''Away''] = 7"
    if team: "team \<in> set (teams module_league)" for team
  proof -
    obtain t where t: "t < 16" "team = team_name t" by (rule team_cases[OF team])
    have "map_of (schedules_of \<sigma>) team = Some (entries_of \<sigma> t loop_order)"
      using t by (simp add: schedule_lookup)
    moreover have "\<forall>week\<in>{1..W}. length [g \<leftarrow> entries_of \<sigma> t loop_order. t_Week g = week] = 1"
      using team_games_in_week[OF assms t(1)] by (simp add: W_def)
    moreover have "length (entries_of \<sigma> t loop_order) = W"
      using team_games_total[OF assms t(1)] by (simp add: W_def)
    ultimately show ?thesis
      using team_home_away[OF assms t(1)] by simp
  qed
  then show ?thesis
    using extract_module[of \<sigma>] games by blast
qed

theorem one_game_per_week_and_home_away_balance_witness:
  "satisfying module_league example_value \<and>
   (\<exists>games_by_week team_schedules.
           extract_schedule module_league example_value = Some (games_by_week, team_schedules) \<and>
           (\<forall>week\<in>{1..W}. length [g \<leftarrow> games_by_week. Week g = week] = G) \<and>
           (\<forall>team\<in>set (teams module_league). \<exists>sched.
              map_of team_schedules team = Some sched \<and>
              (\<forall>week\<in>{1..W}. length [g \<leftarrow> sched. t_Week g = week] = 1) \<and>
              length sched = W \<and>
              length [g \<leftarrow> sched. Venue g = ''Home''] = 7 \<and>
              length [g \<leftarrow> sched. Venue g = ''Away''] = 7))"
  using example_satisfying one_game_per_week_and_home_away_balance[OF example_satisfying]
  by (rule conjI)

lemma sum_team_delta:
  assumes "u < 16"
  shows "(\<Sum>j<16. if team_name j = team_name u then F j else 0) = (F u :: nat)"
proof -
  have "(\<Sum>j<16. if team_name j = team_name u then F j else 0) = (\<Sum>j<16. if j = u then F j else 0)"
    using assms by (intro sum.cong refl) (simp add: team_name_inj)
  then show ?thesis using assms by simp
qed

lemma count_opponent:
  assumes "t < 16" "u < 16"
  shows "length [g \<leftarrow> entries_of \<sigma> t loop_order. Opponent g = team_name u \<and> Q g]
       = (\<Sum>w<14. (if Q (home_entry w t u) then hosts \<sigma> t u w else 0) +
                   (if Q (away_entry w u t) then hosts \<sigma> u t w else 0))"
proof -
  have "length [g \<leftarrow> entries_of \<sigma> t loop_order. Opponent g = team_name u \<and> Q g]
      = (\<Sum>w<14. (\<Sum>j<16. if team_name j = team_name u then (if Q (home_entry w t j) then hosts \<sigma> t j w else 0) else 0) +
                  (\<Sum>j<16. if team_name j = team_name u then (if Q (away_entry w j t) then hosts \<sigma> j t w else 0) else 0))"
    using assms(1) by (simp add: count_entries entry_simps sum.distrib)
      (auto intro!: sum.cong arg_cong2[where f = "(+)"])
  then show ?thesis
    using assms(2) by (simp only: sum_team_delta)
qed

lemma count_opponent_all:
  assumes "t < 16" "u < 16"
  shows "length [g \<leftarrow> entries_of \<sigma> t loop_order. Opponent g = team_name u]
       = (\<Sum>w<14. hosts \<sigma> t u w + hosts \<sigma> u t w)"
  using count_opponent[OF assms, where Q = "\<lambda>g. True"] by simp

lemma count_hosting:
  assumes "t < 16" "u < 16"
  shows "length [g \<leftarrow> games_of \<sigma> loop_order. Home g = team_name t \<and> Away g = team_name u]
       = (\<Sum>w<14. hosts \<sigma> t u w)"
proof -
  have "length [g \<leftarrow> games_of \<sigma> loop_order. Home g = team_name t \<and> Away g = team_name u]
      = (\<Sum>w<14. \<Sum>i<16. if team_name i = team_name t
            then (\<Sum>j<16. if team_name j = team_name u then hosts \<sigma> i j w else 0) else 0)"
    by (simp add: count_games entry_simps cong: if_cong) (auto intro!: sum.cong)
  then show ?thesis
    using assms by (simp only: sum_team_delta)
qed

lemma teams_by_div_index:
  "teams_by_div module_league = map (\<lambda>d. (division_name d, map team_name [4 * d..<4 * d + 4])) [0..<4]"
  by (simp add: teams_by_div_module division_name_def team_name_def teams_module upt_rec)

lemma division_cases:
  assumes "(d, div_teams) \<in> set (teams_by_div module_league)"
    "team1 \<in> set div_teams" "team2 \<in> set div_teams"
  obtains t u where "t < 16" "u < 16" "t div 4 = u div 4" "team1 = team_name t" "team2 = team_name u"
proof -
  have "(d, div_teams) \<in> (\<lambda>d. (division_name d, map team_name [4 * d..<4 * d + 4])) ` {0..<4}"
    using assms(1) unfolding teams_by_div_index by (simp only: set_map set_upt)
  then obtain k where k: "k \<in> {0..<4}"
      "(d, div_teams) = (division_name k, map team_name [4 * k..<4 * k + 4])"
    by (rule imageE)
  have set: "set div_teams = team_name ` {4 * k..<4 * k + 4}"
    using k(2) by (simp only: prod.inject set_map set_upt)
  obtain t where t: "team1 = team_name t" "t \<in> {4 * k..<4 * k + 4}"
    using assms(2) unfolding set by (rule imageE)
  obtain u where u: "team2 = team_name u" "u \<in> {4 * k..<4 * k + 4}"
    using assms(3) unfolding set by (rule imageE)
  have "k < 4" using k(1) by simp
  then have "t < 16" "u < 16" "t div 4 = k" "u div 4 = k"
    using t(2) u(2) by (simp_all only: atLeastLessThan_iff) linarith+
  then show ?thesis using that t(1) u(1) by simp
qed

lemma div_pairs_cases:
  assumes "t < 16" "u < 16" "t div 4 = u div 4" "t \<noteq> u"
  shows "(t, u) \<in> set module_div_pairs \<or> (u, t) \<in> set module_div_pairs"
proof -
  have "\<forall>t<16. \<forall>u<16. t div 4 = u div 4 \<longrightarrow> t \<noteq> u \<longrightarrow>
      (t, u) \<in> set module_div_pairs \<or> (u, t) \<in> set module_div_pairs"
    unfolding all_lt16 by (simp add: module_div_pairs_eq)
  then show ?thesis using assms by blast
qed

lemma division_pair_facts:
  assumes "satisfying module_league \<sigma>" "t < 16" "u < 16" "t div 4 = u div 4" "t \<noteq> u"
  shows "(\<Sum>w<14. hosts \<sigma> t u w + hosts \<sigma> u t w) = 2"
    "(\<Sum>w<14. hosts \<sigma> t u w) = 1" "(\<Sum>w<14. hosts \<sigma> u t w) = 1"
  using div_pairs_cases[OF assms(2-5)]
    sat_division_twice[OF assms(1), of t u] sat_division_twice[OF assms(1), of u t]
    sat_division_home_once[OF assms(1), of t u] sat_division_home_once[OF assms(1), of u t]
  by (auto simp: add.commute)

text \<open>
  C6. For every satisfying assignment of the model of the module's league and every two
  different teams of one division, the extracted schedule has exactly one game hosted
  by the first against the second, and the first team's schedule has exactly two games
  against the second, exactly one of them at home and exactly one away.
\<close>

theorem division_pairs_meet_twice_once_at_each_home:
  assumes "satisfying module_league \<sigma>"
  shows "\<exists>games_by_week team_schedules.
           extract_schedule module_league \<sigma> = Some (games_by_week, team_schedules) \<and>
           (\<forall>(d, div_teams)\<in>set (teams_by_div module_league).
              \<forall>team1\<in>set div_teams. \<forall>team2\<in>set div_teams. team1 \<noteq> team2 \<longrightarrow>
                length [g \<leftarrow> games_by_week. Home g = team1 \<and> Away g = team2] = 1 \<and>
                (\<exists>sched. map_of team_schedules team1 = Some sched \<and>
                   length [g \<leftarrow> sched. Opponent g = team2] = 2 \<and>
                   length [g \<leftarrow> sched. Opponent g = team2 \<and> Venue g = ''Home''] = 1 \<and>
                   length [g \<leftarrow> sched. Opponent g = team2 \<and> Venue g = ''Away''] = 1))"
proof -
  have "length [g \<leftarrow> games_of \<sigma> loop_order. Home g = team1 \<and> Away g = team2] = 1 \<and>
        (\<exists>sched. map_of (schedules_of \<sigma>) team1 = Some sched \<and>
           length [g \<leftarrow> sched. Opponent g = team2] = 2 \<and>
           length [g \<leftarrow> sched. Opponent g = team2 \<and> Venue g = ''Home''] = 1 \<and>
           length [g \<leftarrow> sched. Opponent g = team2 \<and> Venue g = ''Away''] = 1)"
    if div: "(d, div_teams) \<in> set (teams_by_div module_league)"
      and teams: "team1 \<in> set div_teams" "team2 \<in> set div_teams" "team1 \<noteq> team2"
    for d div_teams team1 team2
  proof -
    obtain t u where tu: "t < 16" "u < 16" "t div 4 = u div 4"
        "team1 = team_name t" "team2 = team_name u"
      by (rule division_cases[OF div teams(1,2)])
    have ne: "t \<noteq> u" using teams(3) tu by auto
    note facts = division_pair_facts[OF assms tu(1-3) ne]
    have "map_of (schedules_of \<sigma>) team1 = Some (entries_of \<sigma> t loop_order)"
      using tu by (simp add: schedule_lookup)
    moreover have "length [g \<leftarrow> games_of \<sigma> loop_order. Home g = team1 \<and> Away g = team2] = 1"
      using tu facts by (simp add: count_hosting)
    moreover have "length [g \<leftarrow> entries_of \<sigma> t loop_order. Opponent g = team2] = 2"
      using tu facts by (simp add: count_opponent_all)
    moreover have "length [g \<leftarrow> entries_of \<sigma> t loop_order. Opponent g = team2 \<and> Venue g = ''Home''] = 1"
      using tu facts by (simp add: count_opponent entry_simps)
    moreover have "length [g \<leftarrow> entries_of \<sigma> t loop_order. Opponent g = team2 \<and> Venue g = ''Away''] = 1"
      using tu facts by (simp add: count_opponent entry_simps)
    ultimately show ?thesis by simp
  qed
  then show ?thesis
    using extract_module[of \<sigma>] by blast
qed

theorem division_pairs_meet_twice_once_at_each_home_witness:
  "satisfying module_league example_value \<and>
   (\<exists>games_by_week team_schedules.
           extract_schedule module_league example_value = Some (games_by_week, team_schedules) \<and>
           (\<forall>(d, div_teams)\<in>set (teams_by_div module_league).
              \<forall>team1\<in>set div_teams. \<forall>team2\<in>set div_teams. team1 \<noteq> team2 \<longrightarrow>
                length [g \<leftarrow> games_by_week. Home g = team1 \<and> Away g = team2] = 1 \<and>
                (\<exists>sched. map_of team_schedules team1 = Some sched \<and>
                   length [g \<leftarrow> sched. Opponent g = team2] = 2 \<and>
                   length [g \<leftarrow> sched. Opponent g = team2 \<and> Venue g = ''Home''] = 1 \<and>
                   length [g \<leftarrow> sched. Opponent g = team2 \<and> Venue g = ''Away''] = 1)))"
  using example_satisfying division_pairs_meet_twice_once_at_each_home[OF example_satisfying]
  by (rule conjI)

lemma rival_pairs_others:
  "(a, b) \<in> set module_rival_pairs \<Longrightarrow> a < 16 \<and> b < 16 \<and> a \<noteq> b \<and> b \<in> set (others a) \<and> a \<in> set (others b)"
  by (auto simp: module_rival_pairs_def others_def)

lemma rival_total:
  assumes "satisfying module_league \<sigma>" "(a, b) \<in> set module_rival_pairs"
  shows "(\<Sum>w<14. hosts \<sigma> a b w + hosts \<sigma> b a w) = 1"
proof -
  have "(\<Sum>w<14. hosts \<sigma> a b w + hosts \<sigma> b a w) \<le> 1"
    using rival_pairs_others[OF assms(2)] sat_non_division_once[OF assms(1), of a b] by simp
  moreover have "hosts \<sigma> a b 9 + hosts \<sigma> b a 9 \<le> (\<Sum>w<14. hosts \<sigma> a b w + hosts \<sigma> b a w)"
    by (rule member_le_sum[of 9 "{..<14}" "\<lambda>w. hosts \<sigma> a b w + hosts \<sigma> b a w"]) simp_all
  ultimately show ?thesis
    using sat_rivalry_week[OF assms] by simp
qed

lemma filter_single:
  assumes "length (filter P xs) = 1" "length (filter (\<lambda>x. P x \<and> Q x) xs) = 1"
  shows "\<exists>y. filter P xs = [y] \<and> Q y"
proof -
  obtain y where y: "filter P xs = [y]"
    using assms(1) by (cases "filter P xs") auto
  have "filter (\<lambda>x. P x \<and> Q x) xs = filter Q (filter P xs)"
    by (simp add: conj_commute)
  then have "length (filter Q [y]) = 1" using assms(2) y by simp
  then have "Q y" by (simp split: if_splits)
  then show ?thesis using y by simp
qed

lemma rival_weeks:
  assumes "satisfying module_league \<sigma>" "t < 16" "u < 16"
    "(t, u) \<in> set module_rival_pairs \<or> (u, t) \<in> set module_rival_pairs"
  shows "[t_Week g. g \<leftarrow> entries_of \<sigma> t loop_order, Opponent g = team_name u] = [rivalry_week + 1]"
proof -
  have total: "(\<Sum>w<14. hosts \<sigma> t u w + hosts \<sigma> u t w) = 1"
    and week: "hosts \<sigma> t u 9 + hosts \<sigma> u t 9 = 1"
    using assms(4) rival_total[OF assms(1), of t u] rival_total[OF assms(1), of u t]
      sat_rivalry_week[OF assms(1), of t u] sat_rivalry_week[OF assms(1), of u t]
    by (auto simp: add.commute)
  have 1: "length [g \<leftarrow> entries_of \<sigma> t loop_order. Opponent g = team_name u] = 1"
    using total assms(2,3) by (simp add: count_opponent_all)
  have "length [g \<leftarrow> entries_of \<sigma> t loop_order. Opponent g = team_name u \<and> t_Week g = 10]
      = hosts \<sigma> t u 9 + hosts \<sigma> u t 9"
    using assms(2,3) by (simp add: count_opponent entry_simps sum.distrib)
  then have 2: "length [g \<leftarrow> entries_of \<sigma> t loop_order. Opponent g = team_name u \<and> t_Week g = 10] = 1"
    using week by simp
  obtain y where "[g \<leftarrow> entries_of \<sigma> t loop_order. Opponent g = team_name u] = [y]" "t_Week y = 10"
    using filter_single[OF 1 2] by blast
  then show ?thesis by (simp add: rivalry_week_def concat_map_if)
qed

text \<open>
  C3. For every satisfying assignment of the model of the module's league there are 8
  rivalry pairs, and for each of them the weeks in which the first team's schedule has
  a game against the second are exactly week 10 (index \<open>rivalry_week = 9\<close>), once; the
  same holds in the second team's schedule. So the pair meets exactly once, in the
  rivalry week, and in no other week.
\<close>

theorem rivalry_pairs_meet_once_in_rivalry_week:
  assumes "satisfying module_league \<sigma>"
  shows "\<exists>games_by_week team_schedules.
           extract_schedule module_league \<sigma> = Some (games_by_week, team_schedules) \<and>
           length (rivals module_league) = 8 \<and>
           (\<forall>(team1, team2)\<in>set (rivals module_league).
              (\<exists>sched. map_of team_schedules team1 = Some sched \<and>
                 [t_Week g. g \<leftarrow> sched, Opponent g = team2] = [rivalry_week + 1]) \<and>
              (\<exists>sched. map_of team_schedules team2 = Some sched \<and>
                 [t_Week g. g \<leftarrow> sched, Opponent g = team1] = [rivalry_week + 1]))"
proof -
  have "(\<exists>sched. map_of (schedules_of \<sigma>) team1 = Some sched \<and>
           [t_Week g. g \<leftarrow> sched, Opponent g = team2] = [rivalry_week + 1]) \<and>
        (\<exists>sched. map_of (schedules_of \<sigma>) team2 = Some sched \<and>
           [t_Week g. g \<leftarrow> sched, Opponent g = team1] = [rivalry_week + 1])"
    if r: "(team1, team2) \<in> set (rivals module_league)" for team1 team2
  proof -
    obtain a b where ab: "(a, b) \<in> set module_rival_pairs" "team1 = team_name a" "team2 = team_name b"
      using r by (auto simp: rivals_index)
    have b: "a < 16" "b < 16" using rival_pairs_bound[OF ab(1)] by simp_all
    show ?thesis
      using rival_weeks[OF assms b] rival_weeks[OF assms b(2,1)] ab b
      by (simp add: schedule_lookup)
  qed
  moreover have "length (rivals module_league) = 8"
    by (simp add: rivals_module)
  ultimately show ?thesis
    using extract_module[of \<sigma>] by blast
qed

theorem rivalry_pairs_meet_once_in_rivalry_week_witness:
  "satisfying module_league example_value \<and>
   (\<exists>games_by_week team_schedules.
           extract_schedule module_league example_value = Some (games_by_week, team_schedules) \<and>
           length (rivals module_league) = 8 \<and>
           (\<forall>(team1, team2)\<in>set (rivals module_league).
              (\<exists>sched. map_of team_schedules team1 = Some sched \<and>
                 [t_Week g. g \<leftarrow> sched, Opponent g = team2] = [rivalry_week + 1]) \<and>
              (\<exists>sched. map_of team_schedules team2 = Some sched \<and>
                 [t_Week g. g \<leftarrow> sched, Opponent g = team1] = [rivalry_week + 1])))"
  using example_satisfying rivalry_pairs_meet_once_in_rivalry_week[OF example_satisfying]
  by (rule conjI)

lemma others_iff: "j \<in> set (others i) \<longleftrightarrow> j < 16 \<and> j div 4 \<noteq> i div 4"
  by (auto simp: others_def)

lemma opposite_pairs_cases:
  assumes "t < 16" "u < 16" "u div 4 = opposite_index (t div 4)"
  shows "(t, u) \<in> set module_opposite_pairs \<or> (u, t) \<in> set module_opposite_pairs"
proof -
  have "\<forall>t<16. \<forall>u<16. u div 4 = opposite_index (t div 4) \<longrightarrow>
      (t, u) \<in> set module_opposite_pairs \<or> (u, t) \<in> set module_opposite_pairs"
    unfolding all_lt16 by (simp add: module_opposite_pairs_eq opposite_index_def)
  then show ?thesis using assms by blast
qed

lemma opposite_total:
  assumes "satisfying module_league \<sigma>" "t < 16" "u < 16" "u div 4 = opposite_index (t div 4)"
  shows "(\<Sum>w<14. hosts \<sigma> t u w + hosts \<sigma> u t w) = 1"
  using opposite_pairs_cases[OF assms(2-4)]
    sat_opposite_once[OF assms(1), of t u] sat_opposite_once[OF assms(1), of u t]
  by (auto simp: add.commute)

text \<open>
  C7. For every satisfying assignment of the model of the module's league and every two
  teams of different divisions, the first team's schedule has at most one game against
  the second; and exactly one when the second team's division is the opposite of the
  first's (North/South, East/West).
\<close>

theorem cross_division_pairs_meet_at_most_once:
  assumes "satisfying module_league \<sigma>"
  shows "\<exists>games_by_week team_schedules.
           extract_schedule module_league \<sigma> = Some (games_by_week, team_schedules) \<and>
           (\<forall>team1\<in>set (teams module_league). \<forall>team2\<in>set (teams module_league).
              \<forall>div1 div2. map_of (div_of module_league) team1 = Some div1 \<and>
                           map_of (div_of module_league) team2 = Some div2 \<and> div1 \<noteq> div2 \<longrightarrow>
                (\<exists>sched. map_of team_schedules team1 = Some sched \<and>
                   length [g \<leftarrow> sched. Opponent g = team2] \<le> 1 \<and>
                   (map_of opposite div1 = Some div2 \<longrightarrow>
                      length [g \<leftarrow> sched. Opponent g = team2] = 1)))"
proof -
  have "\<exists>sched. map_of (schedules_of \<sigma>) team1 = Some sched \<and>
           length [g \<leftarrow> sched. Opponent g = team2] \<le> 1 \<and>
           (map_of opposite div1 = Some div2 \<longrightarrow> length [g \<leftarrow> sched. Opponent g = team2] = 1)"
    if teams: "team1 \<in> set (teams module_league)" "team2 \<in> set (teams module_league)"
      and divs: "map_of (div_of module_league) team1 = Some div1"
        "map_of (div_of module_league) team2 = Some div2" "div1 \<noteq> div2"
    for team1 team2 div1 div2
  proof -
    obtain t where t: "t < 16" "team1 = team_name t" by (rule team_cases[OF teams(1)])
    obtain u where u: "u < 16" "team2 = team_name u" by (rule team_cases[OF teams(2)])
    have d: "div1 = division_name (t div 4)" "div2 = division_name (u div 4)"
      using divs(1,2) t u by (simp_all add: div_of_lookup)
    have lt: "t div 4 < 4" "u div 4 < 4" "opposite_index (t div 4) < 4"
      using t(1) u(1) by (simp_all add: opposite_index_lt)
    have ne: "u div 4 \<noteq> t div 4" using divs(3) d by auto
    have "length [g \<leftarrow> entries_of \<sigma> t loop_order. Opponent g = team2] \<le> 1"
      using sat_non_division_once[OF assms t(1), of u] ne t u
      by (simp add: count_opponent_all others_iff)
    moreover have "length [g \<leftarrow> entries_of \<sigma> t loop_order. Opponent g = team2] = 1"
      if "map_of opposite div1 = Some div2"
    proof -
      have "u div 4 = opposite_index (t div 4)"
        using that d lt by (simp add: opposite_lookup division_name_inj)
      then show ?thesis
        using opposite_total[OF assms t(1) u(1)] t u by (simp add: count_opponent_all)
    qed
    ultimately show ?thesis
      using t by (simp add: schedule_lookup)
  qed
  then show ?thesis
    using extract_module[of \<sigma>] by blast
qed

theorem cross_division_pairs_meet_at_most_once_witness:
  "satisfying module_league example_value \<and>
   (\<exists>games_by_week team_schedules.
           extract_schedule module_league example_value = Some (games_by_week, team_schedules) \<and>
           (\<forall>team1\<in>set (teams module_league). \<forall>team2\<in>set (teams module_league).
              \<forall>div1 div2. map_of (div_of module_league) team1 = Some div1 \<and>
                           map_of (div_of module_league) team2 = Some div2 \<and> div1 \<noteq> div2 \<longrightarrow>
                (\<exists>sched. map_of team_schedules team1 = Some sched \<and>
                   length [g \<leftarrow> sched. Opponent g = team2] \<le> 1 \<and>
                   (map_of opposite div1 = Some div2 \<longrightarrow>
                      length [g \<leftarrow> sched. Opponent g = team2] = 1))))"
  using example_satisfying cross_division_pairs_meet_at_most_once[OF example_satisfying]
  by (rule conjI)

lemma games_of_member:
  assumes "g \<in> set (games_of \<sigma> loop_order)"
  obtains w i j where "w < 14" "i < 16" "j < 16" "i \<noteq> j" "\<sigma> (i, j, w)" "g = game_of w i j"
  using assms unfolding games_of_loop by (auto split: if_splits)

lemma final_week_games_divisional:
  assumes "satisfying module_league \<sigma>" "g \<in> set (games_of \<sigma> loop_order)" "Week g = 14"
  shows "Type g = ''Division'' \<and>
         map_of (div_of module_league) (Home g) = map_of (div_of module_league) (Away g)"
proof -
  obtain w i j where g: "w < 14" "i < 16" "j < 16" "i \<noteq> j" "\<sigma> (i, j, w)" "g = game_of w i j"
    by (rule games_of_member[OF assms(2)])
  have w: "w = 13" using assms(3) g(6) by (simp add: entry_simps)
  have "hosts \<sigma> i j 13 = 1" using g w by (simp add: hosts_def)
  then have "j \<notin> set (others i)"
    using sat_final_week(1)[OF assms(1) g(2), of j] by auto
  then have "j div 4 = i div 4" using g(3) by (simp add: others_iff)
  then show ?thesis
    using g by (simp add: entry_simps type_of_def div_of_lookup)
qed

text \<open>
  C8. For every satisfying assignment of the model of the module's league, every game of
  the extracted schedule in the final week (week 14, index \<open>W - 1\<close>) has type
  \<open>Division\<close> and its two teams are of the same division; the final-week check of the
  validation summary marks all \<open>G = 8\<close> games of that week as divisional.
\<close>

theorem final_week_all_divisional:
  assumes "satisfying module_league \<sigma>"
  shows "\<exists>games_by_week team_schedules.
           extract_schedule module_league \<sigma> = Some (games_by_week, team_schedules) \<and>
           (\<forall>g\<in>set games_by_week. Week g = final_week + 1 \<longrightarrow>
              Type g = ''Division'' \<and>
              map_of (div_of module_league) (Home g) = map_of (div_of module_league) (Away g)) \<and>
           final_week_check games_by_week = (replicate G True, True, G)"
proof -
  have all: "\<forall>g\<in>set (games_of \<sigma> loop_order). Week g = final_week + 1 \<longrightarrow>
              Type g = ''Division'' \<and>
              map_of (div_of module_league) (Home g) = map_of (div_of module_league) (Away g)"
    using final_week_games_divisional[OF assms] by (simp add: final_week_def W_def)
  have len: "length [g \<leftarrow> games_of \<sigma> loop_order. Week g = 14] = 8"
    using games_in_week[OF assms, of 14] by simp
  have marks: "[Type game = ''Division''. game \<leftarrow> [g \<leftarrow> games_of \<sigma> loop_order. Week g = 14]]
      = replicate 8 True"
  proof -
    have "[Type game = ''Division''. game \<leftarrow> [g \<leftarrow> games_of \<sigma> loop_order. Week g = 14]]
        = map (\<lambda>game. True) [g \<leftarrow> games_of \<sigma> loop_order. Week g = 14]"
      using final_week_games_divisional[OF assms] by (intro map_cong refl) simp
    then show ?thesis using len by (simp add: map_replicate_const)
  qed
  have "final_week_check (games_of \<sigma> loop_order) = (replicate G True, True, G)"
    by (simp only: final_week_check_def Let_def marks) (simp add: G_def list_all_iff)
  then show ?thesis
    using extract_module[of \<sigma>] all by blast
qed

theorem final_week_all_divisional_witness:
  "satisfying module_league example_value \<and>
   (\<exists>games_by_week team_schedules.
           extract_schedule module_league example_value = Some (games_by_week, team_schedules) \<and>
           (\<forall>g\<in>set games_by_week. Week g = final_week + 1 \<longrightarrow>
              Type g = ''Division'' \<and>
              map_of (div_of module_league) (Home g) = map_of (div_of module_league) (Away g)) \<and>
           final_week_check games_by_week = (replicate G True, True, G))"
  using example_satisfying final_week_all_divisional[OF example_satisfying]
  by (rule conjI)

lemma hosts_self: "hosts \<sigma> t t w = 0"
  by (simp add: hosts_def)

lemma type_division_iff: "type_of w i j = ''Division'' \<longleftrightarrow> i div 4 = j div 4"
  by (simp add: type_of_def)

lemma sum_list_filter_zero:
  "F t = (0::nat) \<Longrightarrow> sum_list (map F (filter (\<lambda>j. j \<noteq> t) xs)) = sum_list (map F xs)"
  by (induction xs) simp_all

lemma division_block: "k < 4 \<Longrightarrow> {j \<in> {..<16}. j div 4 = k} = {4 * k..<4 * k + (4::nat)}"
proof (rule set_eqI)
  fix j :: nat
  assume "k < 4"
  then have "(j < 16 \<and> j div 4 = k) \<longleftrightarrow> (4 * k \<le> j \<and> j < 4 * k + 4)"
    by presburger
  then show "j \<in> {j \<in> {..<16}. j div 4 = k} \<longleftrightarrow> j \<in> {4 * k..<4 * k + 4}"
    by simp
qed

lemma mates_sum:
  assumes "t < 16"
  shows "(\<Sum>j<16. if j div 4 = t div 4 then hosts \<sigma> t j w + hosts \<sigma> j t w else 0)
       = (\<Sum>j\<leftarrow>mates t. hosts \<sigma> t j w + hosts \<sigma> j t w)"
proof -
  define F where "F = (\<lambda>j. hosts \<sigma> t j w + hosts \<sigma> j t w)"
  have k: "t div 4 < 4" using assms by simp
  have "(\<Sum>j<16. if j div 4 = t div 4 then F j else 0) = sum F {j \<in> {..<16}. j div 4 = t div 4}"
    by (rule sum.inter_filter[symmetric]) simp
  also have "\<dots> = sum F {4 * (t div 4)..<4 * (t div 4) + 4}"
    by (simp only: division_block[OF k])
  also have "\<dots> = sum_list (map F [4 * (t div 4)..<4 * (t div 4) + 4])"
    by (simp add: interv_sum_list_conv_sum_set_nat)
  also have "\<dots> = sum_list (map F (mates t))"
    unfolding mates_def by (rule sum_list_filter_zero[symmetric]) (simp add: F_def hosts_self)
  finally show ?thesis unfolding F_def .
qed

lemma count_division_games:
  assumes "t < 16"
  shows "length [g \<leftarrow> entries_of \<sigma> t loop_order. t_Type g = ''Division'' \<and> Q (t_Week g)]
       = (\<Sum>w<14. if Q (w + 1) then (\<Sum>j\<leftarrow>mates t. hosts \<sigma> t j w + hosts \<sigma> j t w) else 0)"
proof -
  have "length [g \<leftarrow> entries_of \<sigma> t loop_order. t_Type g = ''Division'' \<and> Q (t_Week g)]
      = (\<Sum>w<14. \<Sum>j<16. if Q (w + 1)
           then (if j div 4 = t div 4 then hosts \<sigma> t j w + hosts \<sigma> j t w else 0) else 0)"
    using assms by (simp add: count_entries entry_simps type_division_iff)
      (auto intro!: sum.cong)
  also have "\<dots> = (\<Sum>w<14. if Q (w + 1)
           then (\<Sum>j<16. if j div 4 = t div 4 then hosts \<sigma> t j w + hosts \<sigma> j t w else 0) else 0)"
    by (intro sum.cong refl) simp
  finally show ?thesis using assms by (simp only: mates_sum)
qed

lemma sum_window3:
  assumes "a + 2 < 14"
  shows "(\<Sum>w<14. if w + 1 \<in> {a + 1, a + 2, a + 3} then F w else 0)
       = (F (a::nat) + F (a + 1) + F (a + 2) :: nat)"
proof -
  have "(\<Sum>w<14. if w + 1 \<in> {a + 1, a + 2, a + 3} then F w else 0)
      = sum F {w \<in> {..<14}. w + 1 \<in> {a + 1, a + 2, a + 3}}"
    by (rule sum.inter_filter[symmetric]) simp
  also have "{w \<in> {..<14}. w + 1 \<in> {a + 1, a + 2, a + 3}} = {a, a + 1, a + 2}"
    using assms by auto
  also have "sum F {a, a + 1, a + 2} = F a + F (a + 1) + F (a + 2)"
    by simp
  finally show ?thesis .
qed

lemma sum_last8:
  "(\<Sum>w<14. if 7 \<le> w + 1 then F w else 0) = (sum_list (map F [6..<14]) :: nat)"
proof -
  have "(\<Sum>w<14. if 7 \<le> w + 1 then F w else 0) = sum F {w \<in> {..<14}. 7 \<le> w + 1}"
    by (rule sum.inter_filter[symmetric]) simp
  also have "{w \<in> {..<14}. 7 \<le> w + 1} = {6..<14::nat}"
    by auto
  also have "sum F {6..<14} = sum_list (map F [6..<14])"
    by (simp only: interv_sum_list_conv_sum_set_nat set_upt)
  finally show ?thesis .
qed

lemma division_window:
  assumes "satisfying module_league \<sigma>" "t < 16" "1 \<le> w1" "w1 \<le> 12"
  shows "length [g \<leftarrow> entries_of \<sigma> t loop_order.
           t_Type g = ''Division'' \<and> t_Week g \<in> {w1, w1 + 1, w1 + 2}] \<le> 2"
proof -
  define a where "a = w1 - 1"
  have a: "w1 = a + 1" "a < 12" using assms(3,4) by (simp_all add: a_def)
  define D where "D = (\<lambda>w. \<Sum>j\<leftarrow>mates t. hosts \<sigma> t j w + hosts \<sigma> j t w)"
  have "length [g \<leftarrow> entries_of \<sigma> t loop_order.
           t_Type g = ''Division'' \<and> t_Week g \<in> {a + 1, a + 2, a + 3}]
      = (\<Sum>w<14. if w + 1 \<in> {a + 1, a + 2, a + 3} then D w else 0)"
    unfolding D_def by (rule count_division_games[OF assms(2)])
  also have "\<dots> = D a + D (a + 1) + D (a + 2)"
    using a(2) by (intro sum_window3) simp
  also have "\<dots> \<le> 2"
    using sat_density_cap[OF assms(1,2) a(2)] by (simp add: D_def)
  finally show ?thesis
    unfolding a(1) by (simp add: numeral_3_eq_3 add.commute)
qed

lemma division_last8:
  assumes "satisfying module_league \<sigma>" "t < 16"
  shows "3 \<le> length [g \<leftarrow> entries_of \<sigma> t loop_order. t_Type g = ''Division'' \<and> 7 \<le> t_Week g]"
proof -
  define D where "D = (\<lambda>w. \<Sum>j\<leftarrow>mates t. hosts \<sigma> t j w + hosts \<sigma> j t w)"
  have "length [g \<leftarrow> entries_of \<sigma> t loop_order. t_Type g = ''Division'' \<and> 7 \<le> t_Week g]
      = (\<Sum>w<14. if 7 \<le> w + 1 then D w else 0)"
    unfolding D_def by (rule count_division_games[OF assms(2)])
  also have "\<dots> = sum_list (map D [6..<14])"
    by (rule sum_last8)
  finally show ?thesis
    using sat_density_floor[OF assms] unfolding D_def by simp
qed

lemma length_filter_insort:
  "length (filter P (insort_key f x xs)) = length (filter P (x # xs))"
  by (induction xs) auto

lemma length_filter_sort: "length (filter P (sort_key f xs)) = length (filter P xs)"
  by (induction xs) (simp_all add: length_filter_insort)

lemma div_games_in_window_eq:
  "div_games_in_window (div_weeks sched) w1
   = length [g \<leftarrow> sched. t_Type g = ''Division'' \<and> t_Week g \<in> {w1, w1 + 1, w1 + 2}]"
proof -
  have "length (filter (\<lambda>w. w \<in> {w1, w1 + 1, w1 + 2}) (map t_Week (filter (\<lambda>g. t_Type g = ''Division'') sched)))
      = length [g \<leftarrow> sched. t_Type g = ''Division'' \<and> t_Week g \<in> {w1, w1 + 1, w1 + 2}]"
    by (simp add: filter_map comp_def conj_commute)
  then show ?thesis
    by (simp add: div_games_in_window_def div_weeks_def length_filter_sort)
qed

lemma foldl_max_le:
  "foldl (\<lambda>m x. max m (f x)) a xs \<le> (b::nat) \<longleftrightarrow> a \<le> b \<and> (\<forall>x\<in>set xs. f x \<le> b)"
  by (induction xs arbitrary: a) auto

lemma entries_of_member:
  assumes "g \<in> set (entries_of \<sigma> t loop_order)"
  obtains w j where "w < 14" "j < 16" "j \<noteq> t"
    "(g = home_entry w t j \<and> \<sigma> (t, j, w)) \<or> (g = away_entry w j t \<and> \<sigma> (j, t, w))"
  using assms unfolding entries_of_loop by (auto split: if_splits)

lemma division_type_iff:
  assumes "t < 16" "g \<in> set (entries_of \<sigma> t loop_order)"
  shows "t_Type g = ''Division'' \<longleftrightarrow>
         map_of (div_of module_league) (Opponent g) = map_of (div_of module_league) (team_name t)"
proof -
  obtain w j where j: "j < 16"
      and g: "(g = home_entry w t j \<and> \<sigma> (t, j, w)) \<or> (g = away_entry w j t \<and> \<sigma> (j, t, w))"
    by (rule entries_of_member[OF assms(2)])
  have "t div 4 < 4" "j div 4 < 4" using assms(1) j by simp_all
  then show ?thesis
    using g j assms(1)
    by (auto simp: entry_simps type_division_iff div_of_lookup division_name_inj)
qed

text \<open>
  C9. For every satisfying assignment of the model of the module's league and every
  team: a game of its extracted schedule has type \<open>Division\<close> exactly when the opponent
  is of the team's own division; in every window of 3 consecutive weeks (starting at
  week 1 to 12) it has at most 2 such games, and in weeks 7 to 14 at least 3; the two
  density checks of the validation summary pass for it.
\<close>

theorem division_density_cap_and_floor:
  assumes "satisfying module_league \<sigma>"
  shows "\<exists>games_by_week team_schedules.
           extract_schedule module_league \<sigma> = Some (games_by_week, team_schedules) \<and>
           (\<forall>team\<in>set (teams module_league). \<exists>sched.
              map_of team_schedules team = Some sched \<and>
              (\<forall>g\<in>set sched. t_Type g = ''Division'' \<longleftrightarrow>
                 map_of (div_of module_league) (Opponent g) = map_of (div_of module_league) team) \<and>
              (\<forall>w1\<in>{1..W - 2}. length [g \<leftarrow> sched.
                 t_Type g = ''Division'' \<and> t_Week g \<in> {w1, w1 + 1, w1 + 2}] \<le> 2) \<and>
              3 \<le> length [g \<leftarrow> sched. t_Type g = ''Division'' \<and> 7 \<le> t_Week g] \<and>
              fst (snd (consecutive_division sched)) \<and>
              snd (snd (consecutive_division sched)) = [] \<and>
              snd (last_8_division sched))"
proof -
  have "\<exists>sched. map_of (schedules_of \<sigma>) team = Some sched \<and>
          (\<forall>g\<in>set sched. t_Type g = ''Division'' \<longleftrightarrow>
             map_of (div_of module_league) (Opponent g) = map_of (div_of module_league) team) \<and>
          (\<forall>w1\<in>{1..W - 2}. length [g \<leftarrow> sched.
             t_Type g = ''Division'' \<and> t_Week g \<in> {w1, w1 + 1, w1 + 2}] \<le> 2) \<and>
          3 \<le> length [g \<leftarrow> sched. t_Type g = ''Division'' \<and> 7 \<le> t_Week g] \<and>
          fst (snd (consecutive_division sched)) \<and>
          snd (snd (consecutive_division sched)) = [] \<and>
          snd (last_8_division sched)"
    if team: "team \<in> set (teams module_league)" for team
  proof -
    obtain t where t: "t < 16" "team = team_name t" by (rule team_cases[OF team])
    define sched where "sched = entries_of \<sigma> t loop_order"
    have lookup: "map_of (schedules_of \<sigma>) team = Some sched"
      using t by (simp add: schedule_lookup sched_def)
    have types: "\<forall>g\<in>set sched. t_Type g = ''Division'' \<longleftrightarrow>
        map_of (div_of module_league) (Opponent g) = map_of (div_of module_league) team"
      using division_type_iff[OF t(1), of _ \<sigma>] t(2) by (simp add: sched_def)
    have window: "\<forall>w1\<in>{1..W - 2}. length [g \<leftarrow> sched.
        t_Type g = ''Division'' \<and> t_Week g \<in> {w1, w1 + 1, w1 + 2}] \<le> 2"
      using division_window[OF assms t(1)] by (simp add: sched_def W_def)
    have last8: "3 \<le> length [g \<leftarrow> sched. t_Type g = ''Division'' \<and> 7 \<le> t_Week g]"
      using division_last8[OF assms t(1)] by (simp add: sched_def)
    have win: "\<forall>w1\<in>set [1..<13]. div_games_in_window (div_weeks sched) w1 \<le> 2"
      using window by (simp add: div_games_in_window_eq W_def)
    have "fst (snd (consecutive_division sched))" "snd (snd (consecutive_division sched)) = []"
      using win by (simp_all add: consecutive_division_def Let_def foldl_max_le filter_empty_conv
          not_less del: set_upt)
    moreover have "snd (last_8_division sched)"
      using last8 by (simp add: last_8_division_def)
    ultimately show ?thesis
      using lookup types window last8 by blast
  qed
  then show ?thesis
    using extract_module[of \<sigma>] by blast
qed

theorem division_density_cap_and_floor_witness:
  "satisfying module_league example_value \<and>
   (\<exists>games_by_week team_schedules.
           extract_schedule module_league example_value = Some (games_by_week, team_schedules) \<and>
           (\<forall>team\<in>set (teams module_league). \<exists>sched.
              map_of team_schedules team = Some sched \<and>
              (\<forall>g\<in>set sched. t_Type g = ''Division'' \<longleftrightarrow>
                 map_of (div_of module_league) (Opponent g) = map_of (div_of module_league) team) \<and>
              (\<forall>w1\<in>{1..W - 2}. length [g \<leftarrow> sched.
                 t_Type g = ''Division'' \<and> t_Week g \<in> {w1, w1 + 1, w1 + 2}] \<le> 2) \<and>
              3 \<le> length [g \<leftarrow> sched. t_Type g = ''Division'' \<and> 7 \<le> t_Week g] \<and>
              fst (snd (consecutive_division sched)) \<and>
              snd (snd (consecutive_division sched)) = [] \<and>
              snd (last_8_division sched)))"
  using example_satisfying division_density_cap_and_floor[OF example_satisfying]
  by (rule conjI)

lemma sum_week_delta_any:
  "(\<Sum>w<14. if w + 1 = k then F w else 0) = (if 1 \<le> k \<and> k \<le> 14 then F (k - 1 :: nat) else (0::nat))"
proof (cases "1 \<le> k \<and> k \<le> 14")
  case True
  then show ?thesis using sum_week_delta[of k F] by simp
next
  case False
  then have "(\<Sum>w<14. if w + 1 = k then F w else 0) = (\<Sum>w<14::nat. 0::nat)"
    by (intro sum.cong refl) auto
  then show ?thesis using False by auto
qed

lemma meet_le_one:
  assumes "satisfying module_league \<sigma>" "t < 16" "u < 16" "w < 14"
  shows "hosts \<sigma> t u w + hosts \<sigma> u t w \<le> 1"
proof -
  have "hosts \<sigma> t u w \<le> (\<Sum>j<16. hosts \<sigma> t j w)"
    using assms(3) by (intro member_le_sum) simp_all
  moreover have "hosts \<sigma> u t w \<le> (\<Sum>j<16. hosts \<sigma> j t w)"
    using assms(3) by (intro member_le_sum) simp_all
  ultimately show ?thesis
    using sat_one_game[OF assms(1,2,4)] by simp
qed

lemma count_opponent_week:
  assumes "t < 16" "u < 16"
  shows "length [g \<leftarrow> entries_of \<sigma> t loop_order. Opponent g = team_name u \<and> t_Week g = k]
       = (if 1 \<le> k \<and> k \<le> 14 then hosts \<sigma> t u (k - 1) + hosts \<sigma> u t (k - 1) else 0)"
proof -
  have "length [g \<leftarrow> entries_of \<sigma> t loop_order. Opponent g = team_name u \<and> t_Week g = k]
      = (\<Sum>w<14. if w + 1 = k then hosts \<sigma> t u w + hosts \<sigma> u t w else 0)"
    using assms by (simp add: count_opponent entry_simps) (auto intro!: sum.cong)
  then show ?thesis by (simp only: sum_week_delta_any)
qed

lemma division_pair_apart:
  assumes "satisfying module_league \<sigma>" "t < 16" "u < 16" "t div 4 = u div 4" "t \<noteq> u"
    "1 \<le> k1" "k1 < k2" "k2 < k1 + 3" "k2 \<le> 14"
  shows "hosts \<sigma> t u (k1 - 1) + hosts \<sigma> u t (k1 - 1) + (hosts \<sigma> t u (k2 - 1) + hosts \<sigma> u t (k2 - 1)) \<le> 1"
proof -
  have w: "k1 - 1 < k2 - 1" "k2 - 1 < k1 - 1 + 3" "k2 - 1 < 14"
    using assms(6-9) by simp_all
  show ?thesis
    using div_pairs_cases[OF assms(2-5)]
      sat_separation[OF assms(1) _ w, of t u] sat_separation[OF assms(1) _ w, of u t]
    by auto
qed

lemma two_weeks_count:
  assumes "k1 \<noteq> k2"
  shows "length [g \<leftarrow> xs. P g \<and> t_Week g \<in> {k1, k2}]
       = length [g \<leftarrow> xs. P g \<and> t_Week g = k1] + length [g \<leftarrow> xs. P g \<and> t_Week g = k2]"
  using assms by (induction xs) auto

lemma division_pair_window:
  assumes "satisfying module_league \<sigma>" "t < 16" "u < 16" "t div 4 = u div 4" "t \<noteq> u"
    "k1 < k2" "k2 < k1 + 3"
  shows "length [g \<leftarrow> entries_of \<sigma> t loop_order. Opponent g = team_name u \<and> t_Week g \<in> {k1, k2}] \<le> 1"
proof -
  have ne: "k1 \<noteq> k2" using assms(6) by simp
  have le1: "hosts \<sigma> t u w + hosts \<sigma> u t w \<le> 1" if "w < 14" for w
    using meet_le_one[OF assms(1-3) that] .
  have eq: "length [g \<leftarrow> entries_of \<sigma> t loop_order. Opponent g = team_name u \<and> t_Week g \<in> {k1, k2}]
      = (if 1 \<le> k1 \<and> k1 \<le> 14 then hosts \<sigma> t u (k1 - 1) + hosts \<sigma> u t (k1 - 1) else 0) +
        (if 1 \<le> k2 \<and> k2 \<le> 14 then hosts \<sigma> t u (k2 - 1) + hosts \<sigma> u t (k2 - 1) else 0)"
    by (simp only: two_weeks_count[OF ne] count_opponent_week[OF assms(2,3)])
  consider "k1 = 0" | "14 < k2" | "1 \<le> k1" "k2 \<le> 14" by linarith
  then show ?thesis
  proof cases
    case 1
    then show ?thesis
      using le1[of "k2 - 1"] unfolding eq by auto
  next
    case 2
    then show ?thesis
      using le1[of "k1 - 1"] unfolding eq by auto
  next
    case 3
    then show ?thesis
      using division_pair_apart[OF assms(1-5) 3(1) assms(6,7) 3(2)] assms(6)
      unfolding eq by auto
  qed
qed

lemma division_pair_weeks:
  assumes "satisfying module_league \<sigma>" "t < 16" "u < 16" "t div 4 = u div 4" "t \<noteq> u"
  shows "\<exists>a b. game_weeks (entries_of \<sigma> t loop_order) (team_name u) = [a, b] \<and> a + 3 \<le> b"
proof -
  define sched where "sched = entries_of \<sigma> t loop_order"
  define xs where "xs = map t_Week [g \<leftarrow> sched. Opponent g = team_name u]"
  define m where "m = (\<lambda>k. if 1 \<le> k \<and> k \<le> 14
      then hosts \<sigma> t u (k - 1) + hosts \<sigma> u t (k - 1) else 0)"
  have gw: "game_weeks sched (team_name u) = sort xs"
    by (simp add: game_weeks_def xs_def concat_map_if)
  have "length xs = 2"
    using division_pair_facts(1)[OF assms] assms(2,3)
    by (simp add: xs_def sched_def count_opponent_all)
  then have "length (sort xs) = 2" by simp
  then obtain a b where ab: "sort xs = [a, b]"
    by (cases "sort xs"; cases "tl (sort xs)") auto
  have "sorted (sort xs)" by simp
  then have le: "a \<le> b" unfolding ab by simp
  have count: "length (filter (\<lambda>w. w = k) (sort xs)) = m k" for k
  proof -
    have "length (filter (\<lambda>w. w = k) (sort xs)) = length (filter (\<lambda>w. w = k) xs)"
      by (rule length_filter_sort)
    also have "\<dots> = length [g \<leftarrow> sched. Opponent g = team_name u \<and> t_Week g = k]"
      by (simp add: xs_def filter_map comp_def conj_commute)
    finally show ?thesis
      unfolding sched_def m_def by (simp only: count_opponent_week[OF assms(2,3)])
  qed
  have m_le: "m k \<le> 1" for k
    using meet_le_one[OF assms(1-3), of "k - 1"] by (auto simp: m_def)
  have ma: "m a = 1 + (if b = a then 1 else 0)" and mb: "m b = (if a = b then 1 else 0) + 1"
    using count[of a] count[of b] unfolding ab by (auto split: if_splits)
  have ne: "a \<noteq> b" using ma m_le[of a] by auto
  have a: "1 \<le> a" "a \<le> 14" "hosts \<sigma> t u (a - 1) + hosts \<sigma> u t (a - 1) = 1"
    using ma ne by (auto simp: m_def split: if_splits)
  have b: "1 \<le> b" "b \<le> 14" "hosts \<sigma> t u (b - 1) + hosts \<sigma> u t (b - 1) = 1"
    using mb ne by (auto simp: m_def split: if_splits)
  have "a + 3 \<le> b"
  proof (rule ccontr)
    assume "\<not> a + 3 \<le> b"
    then have "a < b" "b < a + 3" using le ne by simp_all
    from division_pair_apart[OF assms a(1) this b(2)] a(3) b(3)
    show False by simp
  qed
  then show ?thesis using gw ab by (simp add: sched_def)
qed

text \<open>
  C4. For every satisfying assignment of the model of the module's league and every two
  different teams of one division, the sorted weeks of the first team's games against
  the second are two weeks \<open>a\<close> and \<open>b\<close> with \<open>a + separation_weeks \<le> b\<close>, the
  separation check of the validation summary passes for the pair, and for any two
  different weeks less than \<open>separation_weeks = 3\<close> apart the first team's schedule has
  at most one game against the second in them.
\<close>

theorem division_pair_legs_separated:
  assumes "satisfying module_league \<sigma>"
  shows "\<exists>games_by_week team_schedules.
           extract_schedule module_league \<sigma> = Some (games_by_week, team_schedules) \<and>
           (\<forall>(d, div_teams)\<in>set (teams_by_div module_league).
              \<forall>team1\<in>set div_teams. \<forall>team2\<in>set div_teams. team1 \<noteq> team2 \<longrightarrow>
                (\<exists>sched a b. map_of team_schedules team1 = Some sched \<and>
                   game_weeks sched team2 = [a, b] \<and> a + separation_weeks \<le> b \<and>
                   separation_line (game_weeks sched team2) = [(a, b, b - a, True)] \<and>
                   (\<forall>w1 w2. w1 < w2 \<and> w2 < w1 + separation_weeks \<longrightarrow>
                      length [g \<leftarrow> sched. Opponent g = team2 \<and> t_Week g \<in> {w1, w2}] \<le> 1)))"
proof -
  have "\<exists>sched a b. map_of (schedules_of \<sigma>) team1 = Some sched \<and>
           game_weeks sched team2 = [a, b] \<and> a + separation_weeks \<le> b \<and>
           separation_line (game_weeks sched team2) = [(a, b, b - a, True)] \<and>
           (\<forall>w1 w2. w1 < w2 \<and> w2 < w1 + separation_weeks \<longrightarrow>
              length [g \<leftarrow> sched. Opponent g = team2 \<and> t_Week g \<in> {w1, w2}] \<le> 1)"
    if div: "(d, div_teams) \<in> set (teams_by_div module_league)"
      and teams: "team1 \<in> set div_teams" "team2 \<in> set div_teams" "team1 \<noteq> team2"
    for d div_teams team1 team2
  proof -
    obtain t u where tu: "t < 16" "u < 16" "t div 4 = u div 4"
        "team1 = team_name t" "team2 = team_name u"
      by (rule division_cases[OF div teams(1,2)])
    have ne: "t \<noteq> u" using teams(3) tu by auto
    obtain a b where ab: "game_weeks (entries_of \<sigma> t loop_order) team2 = [a, b]" "a + 3 \<le> b"
      using division_pair_weeks[OF assms tu(1-3) ne] tu(5) by auto
    have "nat \<bar>int b - int a\<bar> = b - a" using ab(2) by linarith
    then have "separation_line [a, b] = [(a, b, b - a, True)]"
      using ab(2) by (simp add: separation_line_def Let_def)
    moreover have "\<forall>w1 w2. w1 < w2 \<and> w2 < w1 + separation_weeks \<longrightarrow>
        length [g \<leftarrow> entries_of \<sigma> t loop_order. Opponent g = team2 \<and> t_Week g \<in> {w1, w2}] \<le> 1"
      using division_pair_window[OF assms tu(1-3) ne] tu(5) by (simp add: separation_weeks_def)
    moreover have "map_of (schedules_of \<sigma>) team1 = Some (entries_of \<sigma> t loop_order)"
      using tu by (simp add: schedule_lookup)
    ultimately show ?thesis
      using ab by (auto simp: separation_weeks_def)
  qed
  then show ?thesis
    using extract_module[of \<sigma>] by blast
qed

theorem division_pair_legs_separated_witness:
  "satisfying module_league example_value \<and>
   (\<exists>games_by_week team_schedules.
           extract_schedule module_league example_value = Some (games_by_week, team_schedules) \<and>
           (\<forall>(d, div_teams)\<in>set (teams_by_div module_league).
              \<forall>team1\<in>set div_teams. \<forall>team2\<in>set div_teams. team1 \<noteq> team2 \<longrightarrow>
                (\<exists>sched a b. map_of team_schedules team1 = Some sched \<and>
                   game_weeks sched team2 = [a, b] \<and> a + separation_weeks \<le> b \<and>
                   separation_line (game_weeks sched team2) = [(a, b, b - a, True)] \<and>
                   (\<forall>w1 w2. w1 < w2 \<and> w2 < w1 + separation_weeks \<longrightarrow>
                      length [g \<leftarrow> sched. Opponent g = team2 \<and> t_Week g \<in> {w1, w2}] \<le> 1))))"
  using example_satisfying division_pair_legs_separated[OF example_satisfying]
  by (rule conjI)

lemma type_rivalry_iff:
  assumes "t < 16" "j < 16"
  shows "type_of w t j = ''Rivalry'' \<longleftrightarrow> w = 9 \<and> j = rival_of t"
    "type_of w j t = ''Rivalry'' \<longleftrightarrow> w = 9 \<and> j = rival_of t"
proof -
  have "\<forall>t<16. \<forall>j<16. (type_of w t j = ''Rivalry'' \<longleftrightarrow> w = 9 \<and> j = rival_of t) \<and>
      (type_of w j t = ''Rivalry'' \<longleftrightarrow> w = 9 \<and> j = rival_of t)"
    unfolding all_lt16
    by (simp add: type_of_def is_rival_def module_rival_pairs_def opposite_index_def rival_of_def)
  then show "type_of w t j = ''Rivalry'' \<longleftrightarrow> w = 9 \<and> j = rival_of t"
    "type_of w j t = ''Rivalry'' \<longleftrightarrow> w = 9 \<and> j = rival_of t"
    using assms by blast+
qed

lemma rival_of_pair:
  assumes "t < 16"
  shows "rival_of t < 16 \<and>
    ((t, rival_of t) \<in> set module_rival_pairs \<or> (rival_of t, t) \<in> set module_rival_pairs)"
proof -
  have "\<forall>t<16. rival_of t < 16 \<and>
    ((t, rival_of t) \<in> set module_rival_pairs \<or> (rival_of t, t) \<in> set module_rival_pairs)"
    unfolding all_lt16 by (simp add: module_rival_pairs_def rival_of_def)
  then show ?thesis using assms by blast
qed

lemma type_opposite_iff:
  assumes "t < 16" "j < 16"
  shows "type_of w t j = ''Opposite'' \<longleftrightarrow> j div 4 = opposite_index (t div 4)"
    "type_of w j t = ''Opposite'' \<longleftrightarrow> j div 4 = opposite_index (t div 4)"
proof -
  have "\<forall>a<4. \<forall>b<4. (b = opposite_index a \<longleftrightarrow> a = opposite_index b) \<and> opposite_index a \<noteq> a"
    unfolding all_lt4 by (simp add: opposite_index_def)
  moreover have "t div 4 < 4" "j div 4 < 4" using assms by simp_all
  ultimately have inv: "j div 4 = opposite_index (t div 4) \<longleftrightarrow> t div 4 = opposite_index (j div 4)"
    and ne: "opposite_index (t div 4) \<noteq> t div 4" "opposite_index (j div 4) \<noteq> j div 4"
    by blast+
  show "type_of w t j = ''Opposite'' \<longleftrightarrow> j div 4 = opposite_index (t div 4)"
    using ne by (auto simp: type_of_def)
  show "type_of w j t = ''Opposite'' \<longleftrightarrow> j div 4 = opposite_index (t div 4)"
    using ne inv by (auto simp: type_of_def)
qed

lemma type_of_cases:
  "type_of w i j \<in> {''Division'', ''Opposite'', ''Rivalry'', ''Cross-Division''}"
  by (simp add: type_of_def)

lemma count_rivalry_games:
  assumes "satisfying module_league \<sigma>" "t < 16"
  shows "length [g \<leftarrow> entries_of \<sigma> t loop_order. t_Type g = ''Rivalry''] = 1"
proof -
  define r where "r = rival_of t"
  have r: "r < 16" "(t, r) \<in> set module_rival_pairs \<or> (r, t) \<in> set module_rival_pairs"
    using rival_of_pair[OF assms(2)] by (simp_all add: r_def)
  have "length [g \<leftarrow> entries_of \<sigma> t loop_order. t_Type g = ''Rivalry'']
      = (\<Sum>w<14. \<Sum>j<16. if w = 9 \<and> j = r then hosts \<sigma> t j w + hosts \<sigma> j t w else 0)"
  proof -
    have "(if type_of w t j = ''Rivalry'' then hosts \<sigma> t j w else 0) +
          (if type_of w j t = ''Rivalry'' then hosts \<sigma> j t w else 0)
        = (if w = 9 \<and> j = r then hosts \<sigma> t j w + hosts \<sigma> j t w else 0)"
      if "j \<in> {..<16}" for w j
      using type_rivalry_iff[OF assms(2), of j w] that by (simp add: r_def)
    then have "(\<Sum>w<14. \<Sum>j<16. (if type_of w t j = ''Rivalry'' then hosts \<sigma> t j w else 0) +
          (if type_of w j t = ''Rivalry'' then hosts \<sigma> j t w else 0))
        = (\<Sum>w<14. \<Sum>j<16. if w = 9 \<and> j = r then hosts \<sigma> t j w + hosts \<sigma> j t w else 0)"
      by (intro sum.cong refl)
    then show ?thesis
      using assms(2) by (simp add: count_entries entry_simps)
  qed
  also have "\<dots> = (\<Sum>w<14. if w = 9 then (\<Sum>j<16. if j = r then hosts \<sigma> t j w + hosts \<sigma> j t w else 0) else 0)"
    by (intro sum.cong refl) simp
  also have "\<dots> = hosts \<sigma> t r 9 + hosts \<sigma> r t 9"
    using r(1) by simp
  also have "\<dots> = 1"
    using r(2) sat_rivalry_week[OF assms(1), of t r] sat_rivalry_week[OF assms(1), of r t]
    by (auto simp: add.commute)
  finally show ?thesis .
qed

lemma sum_sum_list_swap:
  "(\<Sum>w\<in>A. sum_list (map (f w) xs)) = (sum_list (map (\<lambda>j. \<Sum>w\<in>A. f w j) xs) :: nat)"
  by (induction xs) (simp_all add: sum.distrib)

lemma mates_member: "t < 16 \<Longrightarrow> j \<in> set (mates t) \<Longrightarrow> j < 16 \<and> j div 4 = t div 4 \<and> j \<noteq> t"
  using mates_bound[of t] by (auto simp: mates_def)

lemma mates_length: "t < 16 \<Longrightarrow> length (mates t) = 3"
proof -
  have "\<forall>t<16. length (mates t) = 3"
    unfolding all_lt16 by (simp add: mates_def upt_rec)
  then show "t < 16 \<Longrightarrow> length (mates t) = 3" by blast
qed

lemma count_division_total:
  assumes "satisfying module_league \<sigma>" "t < 16"
  shows "length [g \<leftarrow> entries_of \<sigma> t loop_order. t_Type g = ''Division''] = 6"
proof -
  have "length [g \<leftarrow> entries_of \<sigma> t loop_order. t_Type g = ''Division'']
      = (\<Sum>w<14. \<Sum>j\<leftarrow>mates t. hosts \<sigma> t j w + hosts \<sigma> j t w)"
    using count_division_games[OF assms(2), where Q = "\<lambda>k. True" and \<sigma> = \<sigma>] by simp
  also have "\<dots> = (\<Sum>j\<leftarrow>mates t. \<Sum>w<14. hosts \<sigma> t j w + hosts \<sigma> j t w)"
    by (rule sum_sum_list_swap)
  also have "\<dots> = (\<Sum>j\<leftarrow>mates t. 2)"
  proof (rule arg_cong[where f = sum_list], rule map_cong[OF refl])
    fix j assume "j \<in> set (mates t)"
    then have "j < 16" "t div 4 = j div 4" "t \<noteq> j"
      using mates_member[OF assms(2), of j] by auto
    then show "(\<Sum>w<14. hosts \<sigma> t j w + hosts \<sigma> j t w) = 2"
      using division_pair_facts(1)[OF assms] by simp
  qed
  also have "\<dots> = 6"
    using mates_length[OF assms(2)] by (simp add: sum_list_triv)
  finally show ?thesis .
qed

lemma count_opposite_total:
  assumes "satisfying module_league \<sigma>" "t < 16"
  shows "length [g \<leftarrow> entries_of \<sigma> t loop_order. t_Type g = ''Opposite''] = 4"
proof -
  define k where "k = opposite_index (t div 4)"
  have k: "k < 4" using assms(2) by (simp add: k_def opposite_index_lt)
  have "(if type_of w t j = ''Opposite'' then hosts \<sigma> t j w else 0) +
        (if type_of w j t = ''Opposite'' then hosts \<sigma> j t w else 0)
      = (if j div 4 = k then hosts \<sigma> t j w + hosts \<sigma> j t w else 0)"
    if "j \<in> {..<16}" for w j
    using type_opposite_iff[OF assms(2), of j w] that by (simp add: k_def)
  then have "(\<Sum>w<14. \<Sum>j<16. (if type_of w t j = ''Opposite'' then hosts \<sigma> t j w else 0) +
        (if type_of w j t = ''Opposite'' then hosts \<sigma> j t w else 0))
      = (\<Sum>w<14. \<Sum>j<16. if j div 4 = k then hosts \<sigma> t j w + hosts \<sigma> j t w else 0)"
    by (intro sum.cong refl)
  then have "length [g \<leftarrow> entries_of \<sigma> t loop_order. t_Type g = ''Opposite'']
      = (\<Sum>w<14. \<Sum>j<16. if j div 4 = k then hosts \<sigma> t j w + hosts \<sigma> j t w else 0)"
    using assms(2) by (simp add: count_entries entry_simps)
  also have "\<dots> = (\<Sum>j<16. \<Sum>w<14. if j div 4 = k then hosts \<sigma> t j w + hosts \<sigma> j t w else 0)"
    by (rule sum.swap)
  also have "\<dots> = (\<Sum>j<16. if j div 4 = k then 1 else 0)"
  proof (intro sum.cong refl)
    fix j :: nat assume "j \<in> {..<16}"
    then have j: "j < 16" by simp
    show "(\<Sum>w<14. if j div 4 = k then hosts \<sigma> t j w + hosts \<sigma> j t w else 0)
        = (if j div 4 = k then 1 else 0)"
      using opposite_total[OF assms j] by (simp add: k_def)
  qed
  also have "\<dots> = card {j \<in> {..<16}. j div 4 = k}"
    by (simp add: sum.inter_filter[symmetric])
  also have "\<dots> = 4"
    by (simp only: division_block[OF k]) simp
  finally show ?thesis .
qed

lemma length_three_way:
  assumes "\<forall>x\<in>set xs. (P x \<and> \<not> Q x \<and> \<not> R x) \<or> (\<not> P x \<and> Q x \<and> \<not> R x) \<or> (\<not> P x \<and> \<not> Q x \<and> R x)"
  shows "length xs = length (filter P xs) + length (filter Q xs) + length (filter R xs)"
  using assms by (induction xs) auto

lemma entry_type_cases:
  assumes "g \<in> set (entries_of \<sigma> t loop_order)"
  shows "t_Type g \<in> {''Division'', ''Opposite'', ''Rivalry'', ''Cross-Division''}"
proof -
  obtain w j where "(g = home_entry w t j \<and> \<sigma> (t, j, w)) \<or> (g = away_entry w j t \<and> \<sigma> (j, t, w))"
    by (rule entries_of_member[OF assms])
  then show ?thesis
    using type_of_cases[of w t j] type_of_cases[of w j t] by (auto simp: entry_simps)
qed

lemma count_cross_total:
  assumes "satisfying module_league \<sigma>" "t < 16"
  shows "length [g \<leftarrow> entries_of \<sigma> t loop_order.
           t_Type g \<in> set [''Cross-Division'', ''Rivalry'']] = 4"
proof -
  have "\<forall>g\<in>set (entries_of \<sigma> t loop_order).
      (t_Type g = ''Division'' \<and> \<not> t_Type g = ''Opposite'' \<and> \<not> t_Type g \<in> set [''Cross-Division'', ''Rivalry'']) \<or>
      (\<not> t_Type g = ''Division'' \<and> t_Type g = ''Opposite'' \<and> \<not> t_Type g \<in> set [''Cross-Division'', ''Rivalry'']) \<or>
      (\<not> t_Type g = ''Division'' \<and> \<not> t_Type g = ''Opposite'' \<and> t_Type g \<in> set [''Cross-Division'', ''Rivalry''])"
    using entry_type_cases[of _ \<sigma> t] by auto
  from length_three_way[OF this]
  show ?thesis
    using team_games_total[OF assms] count_division_total[OF assms] count_opposite_total[OF assms]
    by simp
qed

lemma opposite_type_iff:
  assumes "t < 16" "g \<in> set (entries_of \<sigma> t loop_order)"
  shows "t_Type g = ''Opposite'' \<longleftrightarrow>
         map_of (div_of module_league) (Opponent g)
           = Some (division_name (opposite_index (t div 4)))"
proof -
  obtain w j where j: "j < 16"
      and g: "(g = home_entry w t j \<and> \<sigma> (t, j, w)) \<or> (g = away_entry w j t \<and> \<sigma> (j, t, w))"
    by (rule entries_of_member[OF assms(2)])
  have "t div 4 < 4" "j div 4 < 4" "opposite_index (t div 4) < 4"
    using assms(1) j by (simp_all add: opposite_index_lt)
  then show ?thesis
    using g j type_opposite_iff[OF assms(1) j, of w]
    by (auto simp: entry_simps div_of_lookup division_name_inj)
qed

lemma cross_type_iff:
  assumes "t < 16" "g \<in> set (entries_of \<sigma> t loop_order)"
  shows "t_Type g \<in> set [''Cross-Division'', ''Rivalry''] \<longleftrightarrow>
         map_of (div_of module_league) (Opponent g)
           \<notin> {Some (division_name (t div 4)), Some (division_name (opposite_index (t div 4)))}"
  using entry_type_cases[OF assms(2)] division_type_iff[OF assms] opposite_type_iff[OF assms]
    div_of_lookup[OF assms(1)]
  by auto

lemma distinct_map_filter:
  assumes "\<And>y. length [x \<leftarrow> xs. f x = y \<and> P x] \<le> 1"
  shows "distinct (map f (filter P xs))"
  using assms
proof (induction xs)
  case Nil
  then show ?case by simp
next
  case (Cons x xs)
  have le: "length [x \<leftarrow> xs. f x = y \<and> P x] \<le> 1" for y
    using Cons.prems[of y] by (simp split: if_splits)
  have "f x \<notin> f ` set (filter P xs)" if "P x"
  proof
    assume "f x \<in> f ` set (filter P xs)"
    then obtain z where "z \<in> set xs" "P z" "f z = f x" by auto
    then have "z \<in> set [x \<leftarrow> xs. f x = f z \<and> P x]" by simp
    then have "0 < length [x \<leftarrow> xs. f x = f z \<and> P x]" by (rule length_pos_if_in_set)
    then show False using Cons.prems[of "f x"] that \<open>f z = f x\<close> by simp
  qed
  then show ?case using Cons.IH[OF le] by simp
qed

lemma cross_opponents_distinct:
  assumes "satisfying module_league \<sigma>" "t < 16"
  shows "distinct (map Opponent [g \<leftarrow> entries_of \<sigma> t loop_order.
           t_Type g \<in> set [''Cross-Division'', ''Rivalry'']])"
proof -
  let ?P = "\<lambda>g. t_Type g \<in> set [''Cross-Division'', ''Rivalry'']"
  have "length [g \<leftarrow> entries_of \<sigma> t loop_order. Opponent g = y \<and> ?P g] \<le> 1" for y
  proof (cases "\<exists>g\<in>set (entries_of \<sigma> t loop_order). Opponent g = y \<and> ?P g")
    case True
    then obtain g where g: "g \<in> set (entries_of \<sigma> t loop_order)" "Opponent g = y" "?P g"
      by blast
    obtain w j where j: "j < 16"
      and gj: "(g = home_entry w t j \<and> \<sigma> (t, j, w)) \<or> (g = away_entry w j t \<and> \<sigma> (j, t, w))"
      by (rule entries_of_member[OF g(1)])
    have y: "y = team_name j" using gj g(2) by (auto simp: entry_simps)
    have "t_Type g \<noteq> ''Division''" using g(3) by auto
    then have "j div 4 \<noteq> t div 4"
      using gj by (auto simp: entry_simps type_of_def)
    then have "(\<Sum>w<14. hosts \<sigma> t j w + hosts \<sigma> j t w) \<le> 1"
      using sat_non_division_once[OF assms, of j] j by (simp add: others_iff)
    then have "length [g \<leftarrow> entries_of \<sigma> t loop_order. Opponent g = y] \<le> 1"
      using assms(2) j y by (simp add: count_opponent_all)
    moreover have "length [g \<leftarrow> entries_of \<sigma> t loop_order. Opponent g = y \<and> ?P g]
        \<le> length [g \<leftarrow> entries_of \<sigma> t loop_order. Opponent g = y]"
      using length_filter_le[of ?P "[g \<leftarrow> entries_of \<sigma> t loop_order. Opponent g = y]"]
      by (simp add: conj_commute)
    ultimately show ?thesis by linarith
  next
    case False
    then have "[g \<leftarrow> entries_of \<sigma> t loop_order. Opponent g = y \<and> ?P g] = []"
      by (simp only: filter_empty_conv) blast
    then show ?thesis by simp
  qed
  then show ?thesis
    by (rule distinct_map_filter)
qed

lemma rivalry_is_cross:
  assumes "t < 16" "g \<in> set (entries_of \<sigma> t loop_order)" "t_Type g = ''Rivalry''"
  shows "map_of (div_of module_league) (Opponent g)
           \<notin> {Some (division_name (t div 4)), Some (division_name (opposite_index (t div 4)))}"
  using cross_type_iff[OF assms(1,2)] assms(3) by simp

text \<open>
  C10. For every satisfying assignment of the model of the module's league and every
  team, the team's extracted schedule has 14 games: exactly 6 against opponents of its
  own division, exactly 4 against opponents of its opposite division and exactly 4
  against opponents of the two other divisions; those 4 opponents are pairwise
  different, exactly one game of the schedule has type \<open>Rivalry\<close> and it is one of
  these 4; the types of the games count the same way, so the opponent breakdown of the
  validation summary is 6, 4, 4 with a passing mark.
\<close>

theorem opponent_breakdown_six_four_four:
  assumes "satisfying module_league \<sigma>"
  shows "\<exists>games_by_week team_schedules.
           extract_schedule module_league \<sigma> = Some (games_by_week, team_schedules) \<and>
           (\<forall>team\<in>set (teams module_league).
              \<exists>sched team_div opp_div.
                map_of team_schedules team = Some sched \<and>
                map_of (div_of module_league) team = Some team_div \<and>
                map_of opposite team_div = Some opp_div \<and>
                length sched = 14 \<and>
                length [g \<leftarrow> sched. map_of (div_of module_league) (Opponent g) = Some team_div] = 6 \<and>
                length [g \<leftarrow> sched. map_of (div_of module_league) (Opponent g) = Some opp_div] = 4 \<and>
                length [g \<leftarrow> sched. map_of (div_of module_league) (Opponent g)
                                      \<notin> {Some team_div, Some opp_div}] = 4 \<and>
                distinct (map Opponent [g \<leftarrow> sched. map_of (div_of module_league) (Opponent g)
                                      \<notin> {Some team_div, Some opp_div}]) \<and>
                length [g \<leftarrow> sched. t_Type g = ''Rivalry''] = 1 \<and>
                (\<forall>g\<in>set sched. t_Type g = ''Rivalry'' \<longrightarrow>
                   map_of (div_of module_league) (Opponent g) \<notin> {Some team_div, Some opp_div}) \<and>
                opponent_breakdown sched = (6, 4, 4, True))"
proof -
  have "\<exists>sched team_div opp_div.
                map_of (schedules_of \<sigma>) team = Some sched \<and>
                map_of (div_of module_league) team = Some team_div \<and>
                map_of opposite team_div = Some opp_div \<and>
                length sched = 14 \<and>
                length [g \<leftarrow> sched. map_of (div_of module_league) (Opponent g) = Some team_div] = 6 \<and>
                length [g \<leftarrow> sched. map_of (div_of module_league) (Opponent g) = Some opp_div] = 4 \<and>
                length [g \<leftarrow> sched. map_of (div_of module_league) (Opponent g)
                                      \<notin> {Some team_div, Some opp_div}] = 4 \<and>
                distinct (map Opponent [g \<leftarrow> sched. map_of (div_of module_league) (Opponent g)
                                      \<notin> {Some team_div, Some opp_div}]) \<and>
                length [g \<leftarrow> sched. t_Type g = ''Rivalry''] = 1 \<and>
                (\<forall>g\<in>set sched. t_Type g = ''Rivalry'' \<longrightarrow>
                   map_of (div_of module_league) (Opponent g) \<notin> {Some team_div, Some opp_div}) \<and>
                opponent_breakdown sched = (6, 4, 4, True)"
    if team: "team \<in> set (teams module_league)" for team
  proof -
    obtain t where t: "t < 16" "team = team_name t" by (rule team_cases[OF team])
    let ?s = "entries_of \<sigma> t loop_order"
    let ?d = "division_name (t div 4)"
    let ?o = "division_name (opposite_index (t div 4))"
    have lt: "t div 4 < 4" using t(1) by simp
    have f1: "[g \<leftarrow> ?s. map_of (div_of module_league) (Opponent g) = Some ?d]
            = [g \<leftarrow> ?s. t_Type g = ''Division'']"
      by (rule filter_cong[OF refl]) (simp add: division_type_iff[OF t(1)] div_of_lookup[OF t(1)])
    have f2: "[g \<leftarrow> ?s. map_of (div_of module_league) (Opponent g) = Some ?o]
            = [g \<leftarrow> ?s. t_Type g = ''Opposite'']"
      by (rule filter_cong[OF refl]) (simp add: opposite_type_iff[OF t(1)])
    have f3: "[g \<leftarrow> ?s. map_of (div_of module_league) (Opponent g) \<notin> {Some ?d, Some ?o}]
            = [g \<leftarrow> ?s. t_Type g \<in> set [''Cross-Division'', ''Rivalry'']]"
      by (rule filter_cong[OF refl]) (simp only: cross_type_iff[OF t(1)])
    have c1: "length [g \<leftarrow> ?s. t_Type g = ''Division''] = 6"
      by (rule count_division_total[OF assms t(1)])
    have c2: "length [g \<leftarrow> ?s. t_Type g = ''Opposite''] = 4"
      by (rule count_opposite_total[OF assms t(1)])
    have c3: "length [g \<leftarrow> ?s. t_Type g \<in> set [''Cross-Division'', ''Rivalry'']] = 4"
      by (rule count_cross_total[OF assms t(1)])
    have "map_of (schedules_of \<sigma>) team = Some ?s"
      using t by (simp add: schedule_lookup)
    moreover have "map_of (div_of module_league) team = Some ?d"
      using t by (simp add: div_of_lookup)
    moreover have "map_of opposite ?d = Some ?o"
      by (rule opposite_lookup[OF lt])
    moreover have "length ?s = 14"
      by (rule team_games_total[OF assms t(1)])
    moreover have "length [g \<leftarrow> ?s. map_of (div_of module_league) (Opponent g) = Some ?d] = 6"
      unfolding f1 by (rule c1)
    moreover have "length [g \<leftarrow> ?s. map_of (div_of module_league) (Opponent g) = Some ?o] = 4"
      unfolding f2 by (rule c2)
    moreover have "length [g \<leftarrow> ?s. map_of (div_of module_league) (Opponent g)
                                      \<notin> {Some ?d, Some ?o}] = 4"
      unfolding f3 by (rule c3)
    moreover have "distinct (map Opponent [g \<leftarrow> ?s. map_of (div_of module_league) (Opponent g)
                                      \<notin> {Some ?d, Some ?o}])"
      unfolding f3 by (rule cross_opponents_distinct[OF assms t(1)])
    moreover have "length [g \<leftarrow> ?s. t_Type g = ''Rivalry''] = 1"
      by (rule count_rivalry_games[OF assms t(1)])
    moreover have "\<forall>g\<in>set ?s. t_Type g = ''Rivalry'' \<longrightarrow>
                   map_of (div_of module_league) (Opponent g) \<notin> {Some ?d, Some ?o}"
      using rivalry_is_cross[OF t(1)] by blast
    moreover have "opponent_breakdown ?s = (6, 4, 4, True)"
      unfolding opponent_breakdown_def Let_def c1 c2 c3 by simp
    ultimately show ?thesis by blast
  qed
  then show ?thesis
    using extract_module[of \<sigma>] by blast
qed

theorem opponent_breakdown_six_four_four_witness:
  "satisfying module_league example_value \<and>
   (\<exists>games_by_week team_schedules.
           extract_schedule module_league example_value = Some (games_by_week, team_schedules) \<and>
           (\<forall>team\<in>set (teams module_league).
              \<exists>sched team_div opp_div.
                map_of team_schedules team = Some sched \<and>
                map_of (div_of module_league) team = Some team_div \<and>
                map_of opposite team_div = Some opp_div \<and>
                length sched = 14 \<and>
                length [g \<leftarrow> sched. map_of (div_of module_league) (Opponent g) = Some team_div] = 6 \<and>
                length [g \<leftarrow> sched. map_of (div_of module_league) (Opponent g) = Some opp_div] = 4 \<and>
                length [g \<leftarrow> sched. map_of (div_of module_league) (Opponent g)
                                      \<notin> {Some team_div, Some opp_div}] = 4 \<and>
                distinct (map Opponent [g \<leftarrow> sched. map_of (div_of module_league) (Opponent g)
                                      \<notin> {Some team_div, Some opp_div}]) \<and>
                length [g \<leftarrow> sched. t_Type g = ''Rivalry''] = 1 \<and>
                (\<forall>g\<in>set sched. t_Type g = ''Rivalry'' \<longrightarrow>
                   map_of (div_of module_league) (Opponent g) \<notin> {Some team_div, Some opp_div}) \<and>
                opponent_breakdown sched = (6, 4, 4, True)))"
  using example_satisfying opponent_breakdown_six_four_four[OF example_satisfying]
  by (rule conjI)

end
